theory Spec2Isabelle
  imports Main "HOL-Library.Word"
begin

section \<open>Encrypted ClientHello (ssl/ech.c): data model\<close>

text \<open>
  The embedding follows \<^verbatim>\<open>ssl/ech.c\<close>. Octets are 8-bit words, buffers are lists of
  octets, lengths and offsets (\<^verbatim>\<open>size_t\<close>, \<^verbatim>\<open>unsigned int\<close> values read from
  the wire) are natural numbers; where the C arithmetic can wrap, the wrap-around is written out.
  A \<^verbatim>\<open>NULL\<close> pointer is \<open>None\<close>. The clock (\<^verbatim>\<open>time(0)\<close>) is an explicit argument.
\<close>

type_synonym byte = "8 word"
type_synonym bytes = "byte list"

text \<open>An \<^verbatim>\<open>EVP_PKEY\<close> private key is an opaque handle.\<close>

type_synonym EVP_PKEY = nat

text \<open>
  \<^verbatim>\<open>ECHConfig\<close>: the fields that \<^verbatim>\<open>ECHConfigs_from_binary\<close> assigns. The window
  \<^verbatim>\<open>encoding_start[encoding_length]\<close> points into the decoded buffer; \<open>encoding_start\<close>
  is kept as the offset from the start of that buffer. The three parallel arrays
  \<^verbatim>\<open>exttypes\<close>, \<^verbatim>\<open>extlens\<close>, \<^verbatim>\<open>exts\<close> are kept as three lists.
\<close>

record ECHConfig =
  version :: nat
  config_id :: byte
  kem_id :: nat
  pub_len :: nat
  pub :: bytes
  nsuites :: nat
  ciphersuites :: "bytes list"
  maximum_name_length :: nat
  public_name_len :: nat
  public_name :: bytes
  nexts :: nat
  exttypes :: "nat list"
  extlens :: "nat list"
  exts :: "bytes option list"
  encoding_length :: nat
  encoding_start :: nat

record ECHConfigs =
  encoded_len :: nat
  encoded :: bytes
  nrecs :: nat
  recs :: "ECHConfig list"

text \<open>\<^verbatim>\<open>SSL_ECH\<close>: one stored (ECHConfigs, private key) pair with its source and load time.\<close>

record SSL_ECH =
  cfg :: "ECHConfigs option"
  inner_name :: "string option"
  outer_name :: "string option"
  pemfname :: "string option"
  loadtime :: int
  keyshare :: "EVP_PKEY option"

text \<open>The part of \<^verbatim>\<open>SSL_CTX\<close> that holds the server's key store: \<^verbatim>\<open>ext.ech\<close>, \<^verbatim>\<open>ext.nechs\<close>.\<close>

record SSL_CTX =
  ech :: "SSL_ECH list option"
  nechs :: nat

section \<open>Key store: flushing by age\<close>

text \<open>\<^verbatim>\<open>SSL_ECH_free\<close> releases what the entry owns and clears it with \<^verbatim>\<open>memset\<close>.\<close>

definition SSL_ECH_zero :: SSL_ECH where
  "SSL_ECH_zero = \<lparr>cfg = None, inner_name = None, outer_name = None, pemfname = None,
     loadtime = 0, keyshare = None\<rparr>"

definition SSL_ECH_free :: "SSL_ECH \<Rightarrow> SSL_ECH" where
  "SSL_ECH_free tbf = SSL_ECH_zero"

text \<open>
  Times are values of \<^verbatim>\<open>time_t\<close>, taken to be a signed integer of 64 bits (the type comes
  from the platform, not from the sources). \<^verbatim>\<open>ep->loadtime + age\<close> is an addition in that
  type, \<open>age\<close> being an \<^verbatim>\<open>int\<close> converted to it: \<open>time_t_add\<close> is the sum as the machine
  gives it, wrapped around into the range of the type (C leaves a signed sum outside the
  range undefined; the wrapped value is what a two's-complement machine computes), and
  \<open>time_t_fits\<close> says that a sum is in that range, so that nothing wraps.
\<close>

definition TIME_T_BITS :: nat where "TIME_T_BITS = 64"

definition time_t_fits :: "int \<Rightarrow> bool" where
  "time_t_fits x = (- (2 ^ (TIME_T_BITS - 1)) \<le> x \<and> x < 2 ^ (TIME_T_BITS - 1))"

definition time_t_add :: "int \<Rightarrow> int \<Rightarrow> int" where
  "time_t_add t a = (t + a + 2 ^ (TIME_T_BITS - 1)) mod 2 ^ TIME_T_BITS - 2 ^ (TIME_T_BITS - 1)"

text \<open>
  The loop of \<^verbatim>\<open>SSL_CTX_ech_server_flush_keys\<close>:
  \<^verbatim>\<open>for (i=0;i!=s->ext.nechs;i++)\<close>, freeing entry \<open>i\<close> when
  \<^verbatim>\<open>(ep->loadtime + age) <= now\<close> and otherwise copying it down to slot \<open>i - deleted\<close>.
  It returns the array and the number deleted.
\<close>

function flush_loop :: "int \<Rightarrow> int \<Rightarrow> nat \<Rightarrow> nat \<Rightarrow> nat \<Rightarrow> SSL_ECH list \<Rightarrow> SSL_ECH list \<times> nat" where
  "flush_loop now age n i deleted arr =
     (if i < n then
        (if time_t_add (loadtime (arr ! i)) age \<le> now
         then flush_loop now age n (i + 1) (deleted + 1) (arr[i := SSL_ECH_free (arr ! i)])
         else flush_loop now age n (i + 1) deleted (arr[i - deleted := arr ! i]))
      else (arr, deleted))"
  by pat_completeness auto
termination
  by (relation "measure (\<lambda>(now, age, n, i, deleted, arr). n - i)") auto

declare flush_loop.simps [simp del]

text \<open>
  \<^verbatim>\<open>SSL_CTX_ech_server_flush_keys(s, age)\<close> at time \<open>now\<close>: the return value and the
  context afterwards.
\<close>

definition SSL_CTX_ech_server_flush_keys :: "SSL_CTX option \<Rightarrow> int \<Rightarrow> int \<Rightarrow> int \<times> SSL_CTX option" where
  "SSL_CTX_ech_server_flush_keys s now age =
     (case s of
        None \<Rightarrow> (0, None)
      | Some c \<Rightarrow>
         (case ech c of
            None \<Rightarrow> (1, Some c)
          | Some arr \<Rightarrow>
              if nechs c = 0 then (1, Some c)
              else if age \<le> 0 then (1, Some (c\<lparr>ech := None, nechs := 0\<rparr>))
              else (case flush_loop now age (nechs c) 0 0 arr of
                      (arr', deleted) \<Rightarrow> (1, Some (c\<lparr>ech := Some arr', nechs := nechs c - deleted\<rparr>)))))"

text \<open>
  The keys a context holds, as \<^verbatim>\<open>SSL_CTX_ech_server_key_status\<close> counts them: the first
  \<^verbatim>\<open>nechs\<close> entries of the array, none when the array is \<^verbatim>\<open>NULL\<close>.
\<close>

definition stored_keys :: "SSL_CTX \<Rightarrow> SSL_ECH list" where
  "stored_keys c = (case ech c of None \<Rightarrow> [] | Some arr \<Rightarrow> take (nechs c) arr)"

definition SSL_CTX_ech_server_key_status :: "SSL_CTX \<Rightarrow> nat" where
  "SSL_CTX_ech_server_key_status c = (case ech c of None \<Rightarrow> 0 | Some arr \<Rightarrow> nechs c)"

text \<open>The context after a flush (the call succeeds on every non-\<^verbatim>\<open>NULL\<close> context).\<close>

definition flushed :: "SSL_CTX \<Rightarrow> int \<Rightarrow> int \<Rightarrow> SSL_CTX" where
  "flushed c now age = (case snd (SSL_CTX_ech_server_flush_keys (Some c) now age) of
      None \<Rightarrow> c | Some c' \<Rightarrow> c')"

text \<open>
  The specification's words for the keys that a flush removes: those
  ``loaded more than \<open>age\<close> seconds ago''.
\<close>

definition spec_flush_removes :: "int \<Rightarrow> int \<Rightarrow> SSL_ECH \<Rightarrow> bool" where
  "spec_flush_removes now age k = (now - loadtime k > age)"

definition spec_flush_keeps :: "int \<Rightarrow> int \<Rightarrow> SSL_ECH \<Rightarrow> bool" where
  "spec_flush_keeps now age k = (\<not> spec_flush_removes now age k)"

text \<open>
  What the code tests: an entry stays when the machine's sum of its load time and \<open>age\<close>
  is after \<open>now\<close>. When the sum fits the type, that is an entry loaded less than \<open>age\<close>
  seconds ago: \<open>loaded_within\<close>.
\<close>

definition flush_keeps :: "int \<Rightarrow> int \<Rightarrow> SSL_ECH \<Rightarrow> bool" where
  "flush_keeps now age k = (\<not> (time_t_add (loadtime k) age \<le> now))"

definition loaded_within :: "int \<Rightarrow> int \<Rightarrow> SSL_ECH \<Rightarrow> bool" where
  "loaded_within now age k = (now < loadtime k + age)"

text \<open>
  A well-formed store: the array holds at least \<^verbatim>\<open>nechs\<close> entries.
\<close>

definition wf_store :: "SSL_CTX \<Rightarrow> bool" where
  "wf_store c = (case ech c of None \<Rightarrow> True | Some arr \<Rightarrow> nechs c \<le> length arr)"

text \<open>Sample stores: a key loaded at a given time, and the store holding exactly the given keys.\<close>

definition key_loaded_at :: "int \<Rightarrow> SSL_ECH" where
  "key_loaded_at t = SSL_ECH_zero\<lparr>loadtime := t\<rparr>"

definition store_of :: "SSL_ECH list \<Rightarrow> SSL_CTX" where
  "store_of ks = \<lparr>ech = Some ks, nechs = length ks\<rparr>"

section \<open>Constants of the headers\<close>

text \<open>
  Modelled from the spec: the constants below are declared in \<^verbatim>\<open>ech_local.h\<close>,
  \<^verbatim>\<open>openssl/ech.h\<close> and \<^verbatim>\<open>openssl/tls1.h\<close>, which are not among the sources.
  The specification gives the decoder's length window as \<open>[10, 1500)\<close> (the source comment at
  the first check says ``so min len >= 10''), a public name of at most 255 octets, an extension
  value below 1500 octets and ciphersuite entries of 4 octets
  (\<^verbatim>\<open>kdf_id || aead_id\<close>; the client reads \<^verbatim>\<open>es[0]\<close> to \<^verbatim>\<open>es[3]\<close>).
  The version numbers are those of the two drafts (the sample ECHConfig in the comment of
  \<^verbatim>\<open>ech_readpemfile\<close> starts \<^verbatim>\<open>00 43 fe 09\<close>); no property below depends on
  their values, only on their being different.
\<close>

definition ECH_MIN_ECHCONFIG_LEN :: nat where "ECH_MIN_ECHCONFIG_LEN = 10"
definition ECH_MAX_ECHCONFIG_LEN :: nat where "ECH_MAX_ECHCONFIG_LEN = 1500"
definition ECH_MAX_ECHCONFIGEXT_LEN :: nat where "ECH_MAX_ECHCONFIGEXT_LEN = 1500"
definition ECH_CIPHER_LEN :: nat where "ECH_CIPHER_LEN = 4"
definition TLSEXT_MAXLEN_host_name :: nat where "TLSEXT_MAXLEN_host_name = 255"
definition ECH_DRAFT_09_VERSION :: nat where "ECH_DRAFT_09_VERSION = 0xfe09"
definition ECH_DRAFT_10_VERSION :: nat where "ECH_DRAFT_10_VERSION = 0xfe0a"

section \<open>Bounds-checked readers\<close>

text \<open>
  Modelled from the spec: the \<^verbatim>\<open>PACKET\<close> readers are inline functions of
  \<^verbatim>\<open>internal/packet.h\<close>, which is not among the sources. A \<^verbatim>\<open>PACKET\<close> is a cursor
  with the number of octets that remain; the model keeps the octets that remain. Each reader
  fails (\<open>None\<close>) and leaves the packet alone when fewer octets remain than it needs;
  otherwise it gives the value read and the packet advanced. The specification reads a
  \<open>u16\<close> as two octets in network order and a length-prefixed field as a \<open>u16\<close> length
  followed by that many octets.
\<close>

definition PACKET_remaining :: "bytes \<Rightarrow> nat" where
  "PACKET_remaining pkt = length pkt"

definition PACKET_get_net_2 :: "bytes \<Rightarrow> (nat \<times> bytes) option" where
  "PACKET_get_net_2 pkt =
     (if PACKET_remaining pkt < 2 then None
      else Some (unat (pkt ! 0) * 256 + unat (pkt ! 1), drop 2 pkt))"

definition PACKET_copy_bytes :: "bytes \<Rightarrow> nat \<Rightarrow> (bytes \<times> bytes) option" where
  "PACKET_copy_bytes pkt n =
     (if PACKET_remaining pkt < n then None else Some (take n pkt, drop n pkt))"

definition PACKET_get_length_prefixed_2 :: "bytes \<Rightarrow> (bytes \<times> bytes) option" where
  "PACKET_get_length_prefixed_2 pkt =
     (case PACKET_get_net_2 pkt of
        None \<Rightarrow> None
      | Some (len, rest) \<Rightarrow> PACKET_copy_bytes rest len)"

section \<open>Decoding an ECHConfigs from binary\<close>

text \<open>
  Modelled from the spec: \<^verbatim>\<open>OPENSSL_malloc\<close> is defined in \<^verbatim>\<open>crypto/mem.c\<close>, which is
  not among the sources, and the specification says nothing of allocation. The library's
  allocator returns \<^verbatim>\<open>NULL\<close> for a request of zero octets, and the decoder treats
  \<^verbatim>\<open>NULL\<close> as an error; running out of memory is not modelled.
\<close>

definition OPENSSL_malloc_fails :: "nat \<Rightarrow> bool" where
  "OPENSSL_malloc_fails num = (num = 0)"

definition ECHConfig_zero :: ECHConfig where
  "ECHConfig_zero = \<lparr>version = 0, config_id = 0, kem_id = 0, pub_len = 0, pub = [],
     nsuites = 0, ciphersuites = [], maximum_name_length = 0, public_name_len = 0,
     public_name = [], nexts = 0, exttypes = [], extlens = [], exts = [],
     encoding_length = 0, encoding_start = 0\<rparr>"

text \<open>
  The ciphersuite list. The two draft bodies of \<^verbatim>\<open>ECHConfigs_from_binary\<close> hold the same
  lines (705--723 and 877--895); they are one function here. The copying loop is
  \<^verbatim>\<open>while (PACKET_copy_bytes(&cipher_suites, cipher, ECH_CIPHER_LEN))\<close>.
\<close>

function copy_suites :: "bytes \<Rightarrow> bytes list \<Rightarrow> bytes list \<times> bytes" where
  "copy_suites cs acc =
     (case PACKET_copy_bytes cs ECH_CIPHER_LEN of
        None \<Rightarrow> (acc, cs)
      | Some (cipher, cs') \<Rightarrow> copy_suites cs' (acc @ [cipher]))"
  by pat_completeness auto
termination
  by (relation "measure (\<lambda>(cs, acc). length cs)")
     (auto simp: PACKET_copy_bytes_def PACKET_remaining_def ECH_CIPHER_LEN_def split: if_splits)

declare copy_suites.simps [simp del]

text \<open>
  The guard is the source's \<^verbatim>\<open>suiteoctets<=0 || (suiteoctets % 1)\<close>; the number of suites
  is \<^verbatim>\<open>suiteoctets/ECH_CIPHER_LEN\<close>, and the array for them is allocated with that
  size; after the copying loop anything left in the list is an error. The result is (\<^verbatim>\<open>nsuites\<close>, \<^verbatim>\<open>ciphersuites\<close>) and the packet advanced.
\<close>

definition read_ciphersuites :: "bytes \<Rightarrow> ((nat \<times> bytes list) \<times> bytes) option" where
  "read_ciphersuites pkt =
     (case PACKET_get_length_prefixed_2 pkt of
        None \<Rightarrow> None
      | Some (cipher_suites, pkt') \<Rightarrow>
          (let suiteoctets = PACKET_remaining cipher_suites in
           if suiteoctets \<le> 0 \<or> suiteoctets mod 1 \<noteq> 0 then None
           else if OPENSSL_malloc_fails (suiteoctets div ECH_CIPHER_LEN) then None
           else (case copy_suites cipher_suites [] of
                   (suites, left) \<Rightarrow>
                     if PACKET_remaining left > 0 then None
                     else Some ((suiteoctets div ECH_CIPHER_LEN, suites), pkt'))))"

text \<open>
  The public name (lines 731--750 and 832--851): the length must be above 1 and at most
  \<^verbatim>\<open>TLSEXT_MAXLEN_host_name\<close>; the stored copy has one more octet, set to NUL. The result
  is (\<^verbatim>\<open>public_name_len\<close>, \<^verbatim>\<open>public_name\<close>) and the packet advanced.
\<close>

definition read_public_name :: "bytes \<Rightarrow> ((nat \<times> bytes) \<times> bytes) option" where
  "read_public_name pkt =
     (case PACKET_get_length_prefixed_2 pkt of
        None \<Rightarrow> None
      | Some (public_name_pkt, pkt') \<Rightarrow>
          (let len = PACKET_remaining public_name_pkt in
           if len \<le> 1 \<or> len > TLSEXT_MAXLEN_host_name then None
           else (case PACKET_copy_bytes public_name_pkt len of
                   None \<Rightarrow> None
                 | Some (name, left) \<Rightarrow> Some ((len, name @ [0]), pkt'))))"

text \<open>
  The public key: a length-prefixed blob, copied whole into a buffer of its length; an empty key
  fails at the allocation.
\<close>

definition read_pub :: "bytes \<Rightarrow> ((nat \<times> bytes) \<times> bytes) option" where
  "read_pub pkt =
     (case PACKET_get_length_prefixed_2 pkt of
        None \<Rightarrow> None
      | Some (pub_pkt, pkt') \<Rightarrow>
          (let len = PACKET_remaining pub_pkt in
           if OPENSSL_malloc_fails len then None
           else (case PACKET_copy_bytes pub_pkt len of
                   None \<Rightarrow> None
                 | Some (p, left) \<Rightarrow> Some ((len, p), pkt'))))"

text \<open>
  The extensions loop, \<^verbatim>\<open>while (PACKET_remaining(&exts) > 0)\<close>. The length \<^verbatim>\<open>extlen\<close>
  is compared with \<^verbatim>\<open>ECH_MAX_ECHCONFIGEXT_LEN\<close> before it is read, while it still holds
  its initial 0. An empty value is stored as \<^verbatim>\<open>NULL\<close>.
\<close>

function exts_loop :: "bytes \<Rightarrow> nat list \<times> nat list \<times> bytes option list
    \<Rightarrow> (nat list \<times> nat list \<times> bytes option list) option" where
  "exts_loop extpkt acc =
     (if PACKET_remaining extpkt > 0 then
        (case PACKET_get_net_2 extpkt of
           None \<Rightarrow> None
         | Some (exttype, e1) \<Rightarrow>
             if (0::nat) \<ge> ECH_MAX_ECHCONFIGEXT_LEN then None
             else (case PACKET_get_net_2 e1 of
                     None \<Rightarrow> None
                   | Some (extlen, e2) \<Rightarrow>
                       (case acc of (ts, ls, vs) \<Rightarrow>
                          if extlen \<noteq> 0 then
                            (case PACKET_copy_bytes e2 extlen of
                               None \<Rightarrow> None
                             | Some (extval, e3) \<Rightarrow>
                                 exts_loop e3 (ts @ [exttype], ls @ [extlen], vs @ [Some extval]))
                          else exts_loop e2 (ts @ [exttype], ls @ [extlen], vs @ [None]))))
      else Some acc)"
  by pat_completeness auto
termination
  by (relation "measure (\<lambda>(extpkt, acc). length extpkt)")
     (auto simp: PACKET_copy_bytes_def PACKET_get_net_2_def PACKET_remaining_def split: if_splits)

declare exts_loop.simps [simp del]

definition read_extensions :: "bytes \<Rightarrow> ((nat \<times> nat list \<times> nat list \<times> bytes option list) \<times> bytes) option" where
  "read_extensions pkt =
     (case PACKET_get_length_prefixed_2 pkt of
        None \<Rightarrow> None
      | Some (extpkt, pkt') \<Rightarrow>
          (case exts_loop extpkt ([], [], []) of
             None \<Rightarrow> None
           | Some (ts, ls, vs) \<Rightarrow> Some ((length ts, ts, ls, vs), pkt')))"

text \<open>
  The draft-10 body: \<^verbatim>\<open>config_id\<close>, \<^verbatim>\<open>kem_id\<close>, public key, ciphersuites,
  \<^verbatim>\<open>maximum_name_length\<close>, public name, extensions.
\<close>

definition ech_draft10_body :: "ECHConfig \<Rightarrow> bytes \<Rightarrow> (ECHConfig \<times> bytes) option" where
  "ech_draft10_body ec pkt =
     (case PACKET_copy_bytes pkt 1 of None \<Rightarrow> None | Some (cid, p1) \<Rightarrow>
      case PACKET_get_net_2 p1 of None \<Rightarrow> None | Some (kem, p2) \<Rightarrow>
      case read_pub p2 of None \<Rightarrow> None | Some ((publen, pubv), p3) \<Rightarrow>
      case read_ciphersuites p3 of None \<Rightarrow> None | Some ((ns, suites), p4) \<Rightarrow>
      case PACKET_get_net_2 p4 of None \<Rightarrow> None | Some (mnl, p5) \<Rightarrow>
      case read_public_name p5 of None \<Rightarrow> None | Some ((pnlen, pn), p6) \<Rightarrow>
      case read_extensions p6 of None \<Rightarrow> None | Some ((n, ts, ls, vs), p7) \<Rightarrow>
        Some (ec\<lparr>config_id := hd cid, kem_id := kem, pub_len := publen, pub := pubv,
                 nsuites := ns, ciphersuites := suites, maximum_name_length := mnl,
                 public_name_len := pnlen, public_name := pn,
                 nexts := n, exttypes := ts, extlens := ls, exts := vs\<rparr>, p7))"

text \<open>
  The draft-09 body: public name, public key, \<^verbatim>\<open>kem_id\<close>, ciphersuites,
  \<^verbatim>\<open>maximum_name_length\<close>, extensions. There is no \<^verbatim>\<open>config_id\<close>.
\<close>

definition ech_draft09_body :: "ECHConfig \<Rightarrow> bytes \<Rightarrow> (ECHConfig \<times> bytes) option" where
  "ech_draft09_body ec pkt =
     (case read_public_name pkt of None \<Rightarrow> None | Some ((pnlen, pn), p1) \<Rightarrow>
      case read_pub p1 of None \<Rightarrow> None | Some ((publen, pubv), p2) \<Rightarrow>
      case PACKET_get_net_2 p2 of None \<Rightarrow> None | Some (kem, p3) \<Rightarrow>
      case read_ciphersuites p3 of None \<Rightarrow> None | Some ((ns, suites), p4) \<Rightarrow>
      case PACKET_get_net_2 p4 of None \<Rightarrow> None | Some (mnl, p5) \<Rightarrow>
      case read_extensions p5 of None \<Rightarrow> None | Some ((n, ts, ls, vs), p6) \<Rightarrow>
        Some (ec\<lparr>public_name_len := pnlen, public_name := pn, pub_len := publen, pub := pubv,
                 kem_id := kem, nsuites := ns, ciphersuites := suites,
                 maximum_name_length := mnl,
                 nexts := n, exttypes := ts, extlens := ls, exts := vs\<rparr>, p6))"

text \<open>
  One turn of the loop \<^verbatim>\<open>while (remaining>not_to_consume)\<close> (lines 605--974), for the
  buffer length \<open>binblen\<close> and the declared length \<open>olen\<close>. The entry starts zeroed, with
  \<^verbatim>\<open>encoding_length=olen\<close> and \<^verbatim>\<open>encoding_start\<close> at the cursor. The test
  \<^verbatim>\<open>(ech_content_length-2) > remaining\<close> is unsigned 32-bit arithmetic, so a content
  length below 2 wraps. A config of an unknown version is skipped (\<open>Some (None, _)\<close>):
  \<^verbatim>\<open>rind\<close> is not advanced for it.
\<close>

definition echconfig_loop_body :: "nat \<Rightarrow> nat \<Rightarrow> bytes \<Rightarrow> (ECHConfig option \<times> bytes) option" where
  "echconfig_loop_body binblen olen pkt =
     (let ec0 = ECHConfig_zero\<lparr>encoding_length := olen,
                                encoding_start := binblen - PACKET_remaining pkt\<rparr> in
      case PACKET_get_net_2 pkt of None \<Rightarrow> None | Some (ver, p1) \<Rightarrow>
      case PACKET_get_net_2 p1 of None \<Rightarrow> None | Some (ech_content_length, p2) \<Rightarrow>
        if (ech_content_length + 2 ^ 32 - 2) mod 2 ^ 32 > PACKET_remaining p2 then None
        else if ver \<noteq> ECH_DRAFT_09_VERSION \<and> ver \<noteq> ECH_DRAFT_10_VERSION then
          (case PACKET_copy_bytes p2 ech_content_length of
             None \<Rightarrow> None
           | Some (foo, p3) \<Rightarrow> Some (None, p3))
        else if ver = ECH_DRAFT_10_VERSION then
          (case ech_draft10_body (ec0\<lparr>version := ver\<rparr>) p2 of
             None \<Rightarrow> None
           | Some (ec, p3) \<Rightarrow> Some (Some ec, p3))
        else
          (case ech_draft09_body (ec0\<lparr>version := ver\<rparr>) p2 of
             None \<Rightarrow> None
           | Some (ec, p3) \<Rightarrow> Some (Some ec, p3)))"

text \<open>Every reader hands back a tail of the packet it was given; the loop body advances it.\<close>

lemma PACKET_get_net_2_tail:
  "PACKET_get_net_2 p = Some (v, p') \<Longrightarrow> p' = drop 2 p \<and> 2 \<le> length p"
  by (auto simp: PACKET_get_net_2_def PACKET_remaining_def split: if_splits)

lemma PACKET_copy_bytes_tail:
  "PACKET_copy_bytes p n = Some (v, p') \<Longrightarrow> p' = drop n p \<and> v = take n p \<and> n \<le> length p"
  by (auto simp: PACKET_copy_bytes_def PACKET_remaining_def split: if_splits)

lemma PACKET_get_length_prefixed_2_tail:
  "PACKET_get_length_prefixed_2 p = Some (v, p') \<Longrightarrow>
     \<exists>n. p' = drop (2 + n) p \<and> v = take n (drop 2 p) \<and> 2 + n \<le> length p"
  by (auto simp: PACKET_get_length_prefixed_2_def split: option.splits
      dest!: PACKET_get_net_2_tail PACKET_copy_bytes_tail)

lemma read_pub_tail:
  "read_pub p = Some (v, p') \<Longrightarrow> \<exists>n. p' = drop n p \<and> n \<le> length p"
  by (auto simp: read_pub_def Let_def split: option.splits if_splits
      dest!: PACKET_get_length_prefixed_2_tail)

lemma read_ciphersuites_tail:
  "read_ciphersuites p = Some (v, p') \<Longrightarrow> \<exists>n. p' = drop n p \<and> n \<le> length p"
  by (auto simp: read_ciphersuites_def Let_def split: option.splits if_splits prod.splits
      dest!: PACKET_get_length_prefixed_2_tail)

lemma read_public_name_tail:
  "read_public_name p = Some (v, p') \<Longrightarrow> \<exists>n. p' = drop n p \<and> n \<le> length p"
  by (auto simp: read_public_name_def Let_def split: option.splits if_splits
      dest!: PACKET_get_length_prefixed_2_tail)

lemma read_extensions_tail:
  "read_extensions p = Some (v, p') \<Longrightarrow> \<exists>n. p' = drop n p \<and> n \<le> length p"
  by (auto simp: read_extensions_def split: option.splits
      dest!: PACKET_get_length_prefixed_2_tail)

lemma drop_tail_trans:
  "p2 = drop n p1 \<and> n \<le> length p1 \<Longrightarrow> p3 = drop m p2 \<and> m \<le> length p2 \<Longrightarrow>
     p3 = drop (n + m) p1 \<and> n + m \<le> length p1"
  by (auto simp: add.commute)

lemma ech_draft10_body_tail:
  assumes "ech_draft10_body ec p = Some (ec', p')"
  shows "\<exists>n. p' = drop n p \<and> n \<le> length p"
proof -
  from assms obtain cid p1 kem p2 v3 p3 v4 p4 mnl p5 v6 p6 v7 where
    s: "PACKET_copy_bytes p 1 = Some (cid, p1)" "PACKET_get_net_2 p1 = Some (kem, p2)"
       "read_pub p2 = Some (v3, p3)" "read_ciphersuites p3 = Some (v4, p4)"
       "PACKET_get_net_2 p4 = Some (mnl, p5)" "read_public_name p5 = Some (v6, p6)"
       "read_extensions p6 = Some (v7, p')"
    by (auto simp: ech_draft10_body_def split: option.splits prod.splits)
  have t1: "p1 = drop 1 p \<and> 1 \<le> length p" using PACKET_copy_bytes_tail [OF s(1)] by simp
  have t2: "p2 = drop 2 p1 \<and> 2 \<le> length p1" using PACKET_get_net_2_tail [OF s(2)] by simp
  obtain n3 where t3: "p3 = drop n3 p2 \<and> n3 \<le> length p2" using read_pub_tail [OF s(3)] by auto
  obtain n4 where t4: "p4 = drop n4 p3 \<and> n4 \<le> length p3"
    using read_ciphersuites_tail [OF s(4)] by auto
  have t5: "p5 = drop 2 p4 \<and> 2 \<le> length p4" using PACKET_get_net_2_tail [OF s(5)] by simp
  obtain n6 where t6: "p6 = drop n6 p5 \<and> n6 \<le> length p5"
    using read_public_name_tail [OF s(6)] by auto
  obtain n7 where t7: "p' = drop n7 p6 \<and> n7 \<le> length p6"
    using read_extensions_tail [OF s(7)] by auto
  note drop_tail_trans [OF drop_tail_trans [OF drop_tail_trans [OF drop_tail_trans
        [OF drop_tail_trans [OF drop_tail_trans [OF t1 t2] t3] t4] t5] t6] t7]
  then show ?thesis by blast
qed

lemma ech_draft09_body_tail:
  assumes "ech_draft09_body ec p = Some (ec', p')"
  shows "\<exists>n. p' = drop n p \<and> n \<le> length p"
proof -
  from assms obtain v1 p1 v2 p2 kem p3 v4 p4 mnl p5 v6 where
    s: "read_public_name p = Some (v1, p1)" "read_pub p1 = Some (v2, p2)"
       "PACKET_get_net_2 p2 = Some (kem, p3)" "read_ciphersuites p3 = Some (v4, p4)"
       "PACKET_get_net_2 p4 = Some (mnl, p5)" "read_extensions p5 = Some (v6, p')"
    by (auto simp: ech_draft09_body_def split: option.splits prod.splits)
  obtain n1 where t1: "p1 = drop n1 p \<and> n1 \<le> length p"
    using read_public_name_tail [OF s(1)] by auto
  obtain n2 where t2: "p2 = drop n2 p1 \<and> n2 \<le> length p1" using read_pub_tail [OF s(2)] by auto
  have t3: "p3 = drop 2 p2 \<and> 2 \<le> length p2" using PACKET_get_net_2_tail [OF s(3)] by simp
  obtain n4 where t4: "p4 = drop n4 p3 \<and> n4 \<le> length p3"
    using read_ciphersuites_tail [OF s(4)] by auto
  have t5: "p5 = drop 2 p4 \<and> 2 \<le> length p4" using PACKET_get_net_2_tail [OF s(5)] by simp
  obtain n6 where t6: "p' = drop n6 p5 \<and> n6 \<le> length p5"
    using read_extensions_tail [OF s(6)] by auto
  note drop_tail_trans [OF drop_tail_trans [OF drop_tail_trans [OF drop_tail_trans
        [OF drop_tail_trans [OF t1 t2] t3] t4] t5] t6]
  then show ?thesis by blast
qed

lemma echconfig_loop_body_tail:
  assumes "echconfig_loop_body binblen olen p = Some (r, p')"
  shows "\<exists>n. p' = drop n p \<and> 4 \<le> n \<and> n \<le> length p"
proof -
  from assms obtain ver p1 clen p2 where
    s: "PACKET_get_net_2 p = Some (ver, p1)" "PACKET_get_net_2 p1 = Some (clen, p2)"
    by (auto simp: echconfig_loop_body_def Let_def split: option.splits)
  have t1: "p1 = drop 2 p \<and> 2 \<le> length p" using PACKET_get_net_2_tail [OF s(1)] by simp
  have t2: "p2 = drop 2 p1 \<and> 2 \<le> length p1" using PACKET_get_net_2_tail [OF s(2)] by simp
  have "\<exists>n. p' = drop n p2 \<and> n \<le> length p2"
    using assms s
    by (auto simp: echconfig_loop_body_def Let_def split: option.splits if_splits
        dest!: PACKET_copy_bytes_tail ech_draft10_body_tail ech_draft09_body_tail)
  then obtain n where t3: "p' = drop n p2 \<and> n \<le> length p2" by blast
  from drop_tail_trans [OF drop_tail_trans [OF t1 t2] t3]
  have "p' = drop (2 + 2 + n) p \<and> 2 + 2 + n \<le> length p" .
  then show ?thesis by (intro exI [of _ "2 + 2 + n"]) simp
qed

text \<open>
  The loop of \<^verbatim>\<open>ECHConfigs_from_binary\<close>: it goes on while more than
  \<^verbatim>\<open>not_to_consume\<close> octets remain, and gives the decoded configs and the packet where
  it stopped.
\<close>

function echconfigs_loop :: "nat \<Rightarrow> nat \<Rightarrow> nat \<Rightarrow> bytes \<Rightarrow> ECHConfig list
    \<Rightarrow> (ECHConfig list \<times> bytes) option" where
  "echconfigs_loop binblen olen not_to_consume pkt te =
     (if PACKET_remaining pkt > not_to_consume then
        (case echconfig_loop_body binblen olen pkt of
           None \<Rightarrow> None
         | Some (None, pkt') \<Rightarrow> echconfigs_loop binblen olen not_to_consume pkt' te
         | Some (Some ec, pkt') \<Rightarrow> echconfigs_loop binblen olen not_to_consume pkt' (te @ [ec]))
      else Some (te, pkt))"
  by pat_completeness auto
termination
proof (relation "measure (\<lambda>(binblen, olen, ntc, pkt, te). length pkt)")
  show "wf (measure (\<lambda>(binblen, olen, ntc, pkt, te). length pkt))" by simp
next
  fix binblen olen not_to_consume :: nat and pkt :: bytes and te :: "ECHConfig list"
    and x2 x1 pkt'
  assume "echconfig_loop_body binblen olen pkt = Some x2" "(x1, pkt') = x2"
  then have "echconfig_loop_body binblen olen pkt = Some (x1, pkt')" by simp
  from echconfig_loop_body_tail [OF this]
  show "((binblen, olen, not_to_consume, pkt', te), (binblen, olen, not_to_consume, pkt, te))
      \<in> measure (\<lambda>(binblen, olen, ntc, pkt, te). length pkt)"
    by auto
next
  fix binblen olen not_to_consume :: nat and pkt :: bytes and te :: "ECHConfig list"
    and x2 x1 pkt' ec
  assume "echconfig_loop_body binblen olen pkt = Some x2" "(x1, pkt') = x2"
  then have "echconfig_loop_body binblen olen pkt = Some (x1, pkt')" by simp
  from echconfig_loop_body_tail [OF this]
  show "((binblen, olen, not_to_consume, pkt', te @ [ec]), (binblen, olen, not_to_consume, pkt, te))
      \<in> measure (\<lambda>(binblen, olen, ntc, pkt, te). length pkt)"
    by auto
qed

declare echconfigs_loop.simps [simp del]

text \<open>
  \<^verbatim>\<open>ECHConfigs_from_binary(binbuf, binblen, leftover)\<close> for non-\<^verbatim>\<open>NULL\<close> arguments,
  with \<open>binblen\<close> the length of \<open>binbuf\<close>. The first function also gives the packet where
  decoding stopped; the second gives what the C function gives: the \<^verbatim>\<open>ECHConfigs\<close> and
  \<^verbatim>\<open>*leftover\<close>, or \<open>None\<close> for \<^verbatim>\<open>NULL\<close>. The record keeps the \<^verbatim>\<open>rind\<close>
  decoded configs.
\<close>

definition ECHConfigs_from_binary_pkt :: "bytes \<Rightarrow> (ECHConfigs \<times> bytes) option" where
  "ECHConfigs_from_binary_pkt binbuf =
     (let binblen = length binbuf in
      if binblen = 0 then None
      else if binblen < ECH_MIN_ECHCONFIG_LEN then None
      else if binblen \<ge> ECH_MAX_ECHCONFIG_LEN then None
      else case PACKET_get_net_2 binbuf of None \<Rightarrow> None | Some (olen, pkt) \<Rightarrow>
        if olen < ECH_MIN_ECHCONFIG_LEN \<or> olen > binblen - 2 then None
        else if binblen \<le> olen then None
        else (case echconfigs_loop binblen olen (binblen - olen) pkt [] of
                None \<Rightarrow> None
              | Some (te, pkt') \<Rightarrow>
                  if PACKET_remaining pkt' > binblen then None
                  else Some (\<lparr>encoded_len = binblen, encoded = binbuf,
                              nrecs = length te, recs = te\<rparr>, pkt')))"

definition ECHConfigs_from_binary :: "bytes \<Rightarrow> (ECHConfigs \<times> nat) option" where
  "ECHConfigs_from_binary binbuf =
     (case ECHConfigs_from_binary_pkt binbuf of
        None \<Rightarrow> None
      | Some (er, pkt') \<Rightarrow> Some (er, PACKET_remaining pkt'))"

section \<open>The HPKE info string\<close>

text \<open>
  How a function of the C code can end: with a value, with the error return (0 or
  \<^verbatim>\<open>NULL\<close>), or by reading outside the buffer it was given (undefined behaviour in C).
\<close>

datatype ech_error = Err | Out_of_bounds

text \<open>
  Modelled from the spec: \<^verbatim>\<open>ECH_CONTEXT_STRING\<close> is declared in \<^verbatim>\<open>ech_local.h\<close>, which
  is not among the sources; the specification gives it as the literal 7 octets \<^verbatim>\<open>tls ech\<close>.
\<close>

definition ECH_CONTEXT_STRING :: bytes where
  "ECH_CONTEXT_STRING = [0x74, 0x6c, 0x73, 0x20, 0x65, 0x63, 0x68]"

text \<open>
  \<^verbatim>\<open>ech_make_enc_info(tc, info, info_len)\<close>, with \<open>buf\<close> the buffer that
  \<^verbatim>\<open>tc->encoding_start\<close> points into and \<open>info_len\<close> the size of the caller's buffer.
  The \<^verbatim>\<open>memcpy\<close> reads \<^verbatim>\<open>encoding_length\<close> octets from \<^verbatim>\<open>encoding_start\<close>.
\<close>

definition ech_make_enc_info :: "bytes \<Rightarrow> ECHConfig \<Rightarrow> nat \<Rightarrow> ech_error + bytes" where
  "ech_make_enc_info buf tc info_len =
     (if info_len < length ECH_CONTEXT_STRING + 1 + encoding_length tc then Inl Err
      else if encoding_start tc + encoding_length tc > length buf then Inl Out_of_bounds
      else Inr (ECH_CONTEXT_STRING @ [0]
                @ take (encoding_length tc) (drop (encoding_start tc) buf)))"

section \<open>The wire format, and what a decoded config should look like\<close>

text \<open>
  The specification's wire format (section 6), used to state what the decoder does with a
  given encoding. A \<open>u16\<close> is two octets in network order, as \<^verbatim>\<open>WPACKET_put_bytes_u16\<close>
  writes it.
\<close>

definition u16_bytes :: "nat \<Rightarrow> bytes" where
  "u16_bytes v = [of_nat (v div 256), of_nat v]"

text \<open>
  The draft-10 content up to the public name: \<^verbatim>\<open>u8 config_id\<close>, \<^verbatim>\<open>u16 kem_id\<close>,
  length-prefixed public key, length-prefixed suites, \<^verbatim>\<open>u16 maximum_name_length\<close>,
  length-prefixed public name; \<open>rest\<close> is what follows (the extensions block). The draft-09
  content has the order public name, public key, \<^verbatim>\<open>kem_id\<close>, suites,
  \<^verbatim>\<open>maximum_name_length\<close>.
\<close>

definition draft10_wire :: "byte \<Rightarrow> nat \<Rightarrow> bytes \<Rightarrow> bytes \<Rightarrow> nat \<Rightarrow> bytes \<Rightarrow> bytes \<Rightarrow> bytes" where
  "draft10_wire cid kem pubv ss mnl pn rest =
     [cid] @ u16_bytes kem @ u16_bytes (length pubv) @ pubv @ u16_bytes (length ss) @ ss
     @ u16_bytes mnl @ u16_bytes (length pn) @ pn @ rest"

definition draft09_wire :: "bytes \<Rightarrow> bytes \<Rightarrow> nat \<Rightarrow> bytes \<Rightarrow> nat \<Rightarrow> bytes \<Rightarrow> bytes" where
  "draft09_wire pn pubv kem ss mnl rest =
     u16_bytes (length pn) @ pn @ u16_bytes (length pubv) @ pubv @ u16_bytes kem
     @ u16_bytes (length ss) @ ss @ u16_bytes mnl @ rest"

text \<open>One ECHConfig: \<^verbatim>\<open>u16 version\<close>, \<^verbatim>\<open>u16 content_length\<close>, content. A list: \<^verbatim>\<open>u16 total_length\<close>, configs.\<close>

definition config_wire :: "nat \<Rightarrow> nat \<Rightarrow> bytes \<Rightarrow> bytes" where
  "config_wire ver content_length body = u16_bytes ver @ u16_bytes content_length @ body"

definition list_wire :: "nat \<Rightarrow> bytes \<Rightarrow> bytes" where
  "list_wire total_length configs = u16_bytes total_length @ configs"

text \<open>The declared \<^verbatim>\<open>total_length\<close> of an input: its first two octets.\<close>

definition total_length :: "bytes \<Rightarrow> nat" where
  "total_length binbuf = (case PACKET_get_net_2 binbuf of None \<Rightarrow> 0 | Some (olen, pkt) \<Rightarrow> olen)"

text \<open>The specification's suites: the payload cut into entries of 4 octets.\<close>

fun suites_of :: "bytes \<Rightarrow> bytes list" where
  "suites_of bs = (if length bs < 4 then [] else take 4 bs # suites_of (drop 4 bs))"

declare suites_of.simps [simp del]

text \<open>
  A decoded config holds a non-empty list of 4-octet suites, as many as \<^verbatim>\<open>nsuites\<close> says;
  and a public name of more than 1 and at most \<^verbatim>\<open>TLSEXT_MAXLEN_host_name\<close> octets, stored
  with a NUL after it.
\<close>

definition suites_ok :: "ECHConfig \<Rightarrow> bool" where
  "suites_ok ec = (0 < nsuites ec \<and> length (ciphersuites ec) = nsuites ec
     \<and> list_all (\<lambda>s. length s = ECH_CIPHER_LEN) (ciphersuites ec))"

definition public_name_ok :: "ECHConfig \<Rightarrow> bool" where
  "public_name_ok ec = (1 < public_name_len ec \<and> public_name_len ec \<le> TLSEXT_MAXLEN_host_name
     \<and> length (public_name ec) = public_name_len ec + 1
     \<and> public_name ec ! public_name_len ec = 0)"

text \<open>
  Sample inputs. Scenario S2 of the specification: a draft-10 config with
  \<^verbatim>\<open>config_id=0x2a\<close>, \<^verbatim>\<open>kem_id=0x20\<close>, a public key of 32 octets \<^verbatim>\<open>0xAB\<close>, one suite
  \<^verbatim>\<open>(0x0001,0x0001)\<close>, \<^verbatim>\<open>max_name=64\<close>, the public name \<^verbatim>\<open>example.com\<close> and no
  extensions; its content takes 60 octets. The same body is also used with other suites and
  names. A smaller config has a public key of one octet and the name \<^verbatim>\<open>ab\<close>; its content takes
  20 octets.
\<close>

definition example_com :: bytes where
  "example_com = [0x65, 0x78, 0x61, 0x6d, 0x70, 0x6c, 0x65, 0x2e, 0x63, 0x6f, 0x6d]"

definition sample_body :: "bytes \<Rightarrow> bytes \<Rightarrow> bytes" where
  "sample_body ss pn = draft10_wire 0x2a 0x20 (replicate 32 0xAB) ss 64 pn [0, 0]"

definition sample_config :: bytes where
  "sample_config = config_wire ECH_DRAFT_10_VERSION 60 (sample_body [0, 1, 0, 1] example_com)"

definition small_config :: bytes where
  "small_config = config_wire ECH_DRAFT_10_VERSION 20
     (draft10_wire 0x2a 0x20 [0xAB] [0, 1, 0, 1] 64 [0x61, 0x62] [0, 0])"

definition two_config_list :: bytes where
  "two_config_list = list_wire 48 (small_config @ small_config)"

text \<open>
  Views of a decoding result: the number of configs with the leftover count; the windows
  (\<^verbatim>\<open>encoding_start\<close>, \<^verbatim>\<open>encoding_length\<close>) of the configs; and the HPKE info that
  \<^verbatim>\<open>ech_make_enc_info\<close> builds for each of them.
\<close>

definition decoded_count :: "bytes \<Rightarrow> (nat \<times> nat) option" where
  "decoded_count binbuf =
     (case ECHConfigs_from_binary binbuf of None \<Rightarrow> None | Some (er, l) \<Rightarrow> Some (nrecs er, l))"

definition decoded_windows :: "bytes \<Rightarrow> (nat \<times> nat) list option" where
  "decoded_windows binbuf =
     (case ECHConfigs_from_binary binbuf of
        None \<Rightarrow> None
      | Some (er, l) \<Rightarrow> Some (map (\<lambda>ec. (encoding_start ec, encoding_length ec)) (recs er)))"

definition decoded_infos :: "bytes \<Rightarrow> nat \<Rightarrow> (ech_error + bytes) list option" where
  "decoded_infos binbuf info_len =
     (case ECHConfigs_from_binary binbuf of
        None \<Rightarrow> None
      | Some (er, l) \<Rightarrow> Some (map (\<lambda>ec. ech_make_enc_info (encoded er) ec info_len) (recs er)))"

section \<open>Adding ECHConfigs from an encoded value\<close>

subsection \<open>C strings in a buffer\<close>

text \<open>
  The caller's buffer \<^verbatim>\<open>ekval\<close> is a list of octets; a \<^verbatim>\<open>char *\<close> into it is an offset.
  The C string at an offset runs up to the first NUL. \<^verbatim>\<open>strlen\<close>, \<^verbatim>\<open>strcspn\<close>,
  \<^verbatim>\<open>strspn\<close> and \<^verbatim>\<open>strstr\<close> are those of the C library.
\<close>

definition strlen_at :: "bytes \<Rightarrow> nat \<Rightarrow> nat" where
  "strlen_at buf off = length (takeWhile (\<lambda>c. c \<noteq> 0) (drop off buf))"

definition strcspn_at :: "bytes \<Rightarrow> nat \<Rightarrow> bytes \<Rightarrow> nat" where
  "strcspn_at buf off reject =
     length (takeWhile (\<lambda>c. c \<noteq> 0 \<and> c \<notin> set reject) (drop off buf))"







definition sepstr :: bytes where
  "sepstr = [0x3b]"

subsection \<open>Guessing the format\<close>



subsection \<open>Base64 decoding of a semi-colon separated value\<close>






subsection \<open>The add operations\<close>














definition two_fragments :: bytes where
  "two_fragments = [0x47, 0x47, 0x47, 0x47, 0x3b, 0x47, 0x47, 0x47, 0x47, 0]"





section \<open>The server: opening the ECH extension\<close>

text \<open>
  Constants of the headers that the server and client code use. They are declared in
  \<^verbatim>\<open>openssl/tls1.h\<close>, \<^verbatim>\<open>openssl/ssl.h\<close>, \<^verbatim>\<open>ech_local.h\<close> and \<^verbatim>\<open>crypto/hpke.h\<close>,
  none among the sources. Modelled from the spec: the specification gives the limits of
  the ECH extension (``reject \<^verbatim>\<open>enc_len > 1024\<close> or \<^verbatim>\<open>payload_len > 16k\<close>''); the
  extension types are those of the TLS registry and of the ECH draft, and a session id has
  at most 32 octets; \<^verbatim>\<open>HPKE_MAXSIZE\<close>, the size of the local buffers, is taken to be 40k.
  The properties below name the constants; they depend on the extension types only through
  their being different.
\<close>

definition TLSEXT_TYPE_server_name :: nat where "TLSEXT_TYPE_server_name = 0"
definition TLSEXT_TYPE_ech :: nat where "TLSEXT_TYPE_ech = 0xfe0a"
definition TLSEXT_TYPE_outer_extensions :: nat where "TLSEXT_TYPE_outer_extensions = 0xfd00"
definition SSL_MAX_SSL_SESSION_ID_LENGTH :: nat where "SSL_MAX_SSL_SESSION_ID_LENGTH = 32"
definition MAX_ECH_ENC_LEN :: nat where "MAX_ECH_ENC_LEN = 1024"
definition MAX_ECH_PAYLOAD_LEN :: nat where "MAX_ECH_PAYLOAD_LEN = 16384"
definition HPKE_MAXSIZE :: nat where "HPKE_MAXSIZE = 40960"

text \<open>\<^verbatim>\<open>ECH_ENCCH\<close>: the decoded value of the ECH extension.\<close>

record ECH_ENCCH =
  kdf_id :: nat
  aead_id :: nat
  ech_config_id :: byte
  enc_len :: nat
  enc :: bytes
  payload_len :: nat
  payload :: bytes

text \<open>The three values of \<^verbatim>\<open>s->ext.ech_grease\<close>.\<close>

datatype grease_state = ECH_GREASE_UNKNOWN | ECH_NOT_GREASE | ECH_IS_GREASE

text \<open>
  HPKE open is a collaborator: \<open>hpke_dec suite priv enc cipher aad info\<close> stands for
  \<^verbatim>\<open>hpke_dec\<close> in base mode with the suite (\<^verbatim>\<open>kem_id\<close>, \<^verbatim>\<open>kdf_id\<close>, \<^verbatim>\<open>aead_id\<close>), and
  gives the plaintext or \<open>None\<close> for a return other than 1.
\<close>

type_synonym hpke_dec_fn = "nat \<times> nat \<times> nat \<Rightarrow> EVP_PKEY option \<Rightarrow> bytes \<Rightarrow> bytes \<Rightarrow> bytes \<Rightarrow> bytes \<Rightarrow> bytes option"

text \<open>
  \<^verbatim>\<open>early_hpke_decrypt_encch(ech, the_ech, aad_len, aad, innerlen)\<close>. It uses the first config
  of the stored key for the public values and the info; it gives up (\<^verbatim>\<open>NULL\<close>, here
  \<open>Inl Err\<close>) when the info cannot be built, when the error queue is not empty on entry
  (\<open>err_pending\<close>), when \<^verbatim>\<open>hpke_dec\<close> fails, or when the plaintext is empty (nothing to
  allocate). A key with no config makes it read through \<^verbatim>\<open>NULL\<close> or past the array.
\<close>

definition early_hpke_decrypt_encch :: "hpke_dec_fn \<Rightarrow> bool \<Rightarrow> SSL_ECH \<Rightarrow> ECH_ENCCH \<Rightarrow> bytes
    \<Rightarrow> ech_error + bytes" where
  "early_hpke_decrypt_encch hpke_dec err_pending k the_ech aad =
     (case cfg k of
        None \<Rightarrow> Inl Out_of_bounds
      | Some c \<Rightarrow>
         (case recs c of
            [] \<Rightarrow> Inl Out_of_bounds
          | rec0 # _ \<Rightarrow>
             (case ech_make_enc_info (encoded c) rec0 HPKE_MAXSIZE of
                Inl e \<Rightarrow> Inl e
              | Inr info \<Rightarrow>
                  if err_pending then Inl Err
                  else (case hpke_dec (kem_id rec0, kdf_id the_ech, aead_id the_ech) (keyshare k)
                               (enc the_ech) (payload the_ech) aad info of
                          None \<Rightarrow> Inl Err
                        | Some clear \<Rightarrow>
                            if OPENSSL_malloc_fails (length clear) then Inl Err
                            else Inr clear))))"

text \<open>
  The search for a stored key with the received \<^verbatim>\<open>config_id\<close> (lines 4174--4186):
  \<^verbatim>\<open>for (cfgind=0;cfgind!=s->ech->cfg->nrecs;cfgind++)\<close>, looking at
  \<^verbatim>\<open>s->ech[cfgind].cfg->recs[0]\<close>. The bound \<open>n\<close> is the number of configs of the first
  stored key, while \<open>cfgind\<close> indexes the array of stored keys \<open>keys\<close>. The result is
  \<^verbatim>\<open>cfgind\<close> and \<^verbatim>\<open>foundcfg\<close>.
\<close>

function find_cfg :: "SSL_ECH list \<Rightarrow> byte \<Rightarrow> nat \<Rightarrow> nat \<Rightarrow> ech_error + nat \<times> bool" where
  "find_cfg keys cid n cfgind =
     (if cfgind < n then
        (if cfgind \<ge> length keys then Inl Out_of_bounds
         else (case cfg (keys ! cfgind) of
                 None \<Rightarrow> Inl Out_of_bounds
               | Some c \<Rightarrow>
                  (case recs c of
                     [] \<Rightarrow> Inl Out_of_bounds
                   | e # _ \<Rightarrow>
                       if cid = config_id e then Inr (cfgind, True)
                       else find_cfg keys cid n (cfgind + 1))))
      else Inr (cfgind, False))"
  by pat_completeness auto
termination
  by (relation "measure (\<lambda>(keys, cid, n, cfgind). n - cfgind)") auto

declare find_cfg.simps [simp del]

text \<open>
  Trial decryption (lines 4198--4210): each stored key up to the same bound is tried until one
  opens. \<open>decrypt\<close> is \<^verbatim>\<open>early_hpke_decrypt_encch\<close> with its other arguments fixed. The
  result is \<^verbatim>\<open>clear\<close> (\<open>None\<close> for \<^verbatim>\<open>NULL\<close>) and the indices of the keys tried, in
  order, after those in \<open>tried\<close>.
\<close>

function trial_decrypt :: "(SSL_ECH \<Rightarrow> ech_error + bytes) \<Rightarrow> SSL_ECH list \<Rightarrow> nat \<Rightarrow> nat \<Rightarrow> nat list
    \<Rightarrow> ech_error + bytes option \<times> nat list" where
  "trial_decrypt decrypt keys n cfgind tried =
     (if cfgind < n then
        (if cfgind \<ge> length keys then Inl Out_of_bounds
         else (case decrypt (keys ! cfgind) of
                 Inl Out_of_bounds \<Rightarrow> Inl Out_of_bounds
               | Inl Err \<Rightarrow> trial_decrypt decrypt keys n (cfgind + 1) (tried @ [cfgind])
               | Inr clear \<Rightarrow> Inr (Some clear, tried @ [cfgind])))
      else Inr (None, tried))"
  by pat_completeness auto
termination
  by (relation "measure (\<lambda>(decrypt, keys, n, cfgind, tried). n - cfgind)") auto

declare trial_decrypt.simps [simp del]

text \<open>
  What \<^verbatim>\<open>ech_early_decrypt\<close> leaves behind: the value it returns when it returns in the part
  modelled (\<open>None\<close> when it goes on), whether \<^verbatim>\<open>SSLfatal\<close> raised an alert, the flags
  \<^verbatim>\<open>ech_grease\<close>, \<^verbatim>\<open>ech_done\<close>, \<^verbatim>\<open>ech_success\<close>, the plaintext, and the indices of the
  stored keys that were handed to \<^verbatim>\<open>early_hpke_decrypt_encch\<close>, in order.
\<close>

record early_result =
  er_return :: "int option"
  er_alert :: bool
  er_grease :: grease_state
  er_done :: bool
  er_success :: bool
  er_clear :: "bytes option"
  er_tried :: "nat list"

text \<open>
  Key selection in \<^verbatim>\<open>ech_early_decrypt\<close> (lines 4163--4253), for the stored keys \<open>keys\<close>
  (\<^verbatim>\<open>s->ech\<close>, a non-empty array), the option \<^verbatim>\<open>SSL_OP_ECH_TRIALDECRYPT\<close> (\<open>trial\<close>), the
  decoded extension and the AAD. A first key without configs is a decode error with an alert.
  When a \<^verbatim>\<open>config_id\<close> matches, that key alone is tried; trial decryption runs only when
  none matched. With no plaintext the session is marked grease and the function returns 1;
  with a plaintext the function goes on to decode the inner ClientHello.
\<close>

definition ech_early_decrypt_keys :: "hpke_dec_fn \<Rightarrow> bool \<Rightarrow> bool \<Rightarrow> SSL_ECH list \<Rightarrow> ECH_ENCCH \<Rightarrow> bytes
    \<Rightarrow> ech_error + early_result" where
  "ech_early_decrypt_keys hpke_dec err_pending trial keys extval aad =
     (case keys of
        [] \<Rightarrow> Inl Out_of_bounds
      | k0 # _ \<Rightarrow>
         (case cfg k0 of
            None \<Rightarrow> Inr \<lparr>er_return = Some 0, er_alert = True, er_grease = ECH_GREASE_UNKNOWN,
                          er_done = False, er_success = False, er_clear = None, er_tried = []\<rparr>
          | Some c0 \<Rightarrow>
             if nrecs c0 = 0 then
               Inr \<lparr>er_return = Some 0, er_alert = True, er_grease = ECH_GREASE_UNKNOWN,
                     er_done = False, er_success = False, er_clear = None, er_tried = []\<rparr>
             else
               (let decrypt = (\<lambda>k. early_hpke_decrypt_encch hpke_dec err_pending k extval aad) in
                case find_cfg keys (ech_config_id extval) (nrecs c0) 0 of
                  Inl e \<Rightarrow> Inl e
                | Inr (cfgind, foundcfg) \<Rightarrow>
                   (case (if foundcfg then
                            (if cfgind \<ge> length keys then Inl Out_of_bounds
                             else case decrypt (keys ! cfgind) of
                                    Inl Out_of_bounds \<Rightarrow> Inl Out_of_bounds
                                  | Inl Err \<Rightarrow> Inr (None, [cfgind])
                                  | Inr clear \<Rightarrow> Inr (Some clear, [cfgind]))
                          else if trial then trial_decrypt decrypt keys (nrecs c0) 0 []
                          else Inr (None, [])) of
                      Inl e \<Rightarrow> Inl e
                    | Inr (clear, tried) \<Rightarrow>
                       (case clear of
                          None \<Rightarrow>
                            Inr \<lparr>er_return = Some 1, er_alert = False, er_grease = ECH_IS_GREASE,
                                  er_done = True, er_success = False, er_clear = None,
                                  er_tried = tried\<rparr>
                        | Some c \<Rightarrow>
                            Inr \<lparr>er_return = None, er_alert = False, er_grease = ECH_NOT_GREASE,
                                  er_done = True, er_success = True, er_clear = Some c,
                                  er_tried = tried\<rparr>)))))"

text \<open>
  Sample stores for the key selection: a stored key that holds one config with the given
  \<^verbatim>\<open>config_id\<close> and the private key handle \<open>h\<close>; an extension with a given
  \<^verbatim>\<open>config_id\<close>; and a stand-in for HPKE that opens with the private key 2 only.
\<close>

definition key_with_id :: "byte \<Rightarrow> EVP_PKEY \<Rightarrow> SSL_ECH" where
  "key_with_id cid h = SSL_ECH_zero\<lparr>
     cfg := Some \<lparr>encoded_len = 0, encoded = [],
                  nrecs = 1, recs = [ECHConfig_zero\<lparr>config_id := cid\<rparr>]\<rparr>,
     keyshare := Some h\<rparr>"

definition ech_with_id :: "byte \<Rightarrow> ECH_ENCCH" where
  "ech_with_id cid = \<lparr>kdf_id = 1, aead_id = 1, ech_config_id = cid, enc_len = 1, enc = [1],
     payload_len = 1, payload = [1]\<rparr>"

definition opens_with_key_2 :: hpke_dec_fn where
  "opens_with_key_2 suite priv e c a i = (if priv = Some 2 then Some [0x2a] else None)"

text \<open>
  The specification's words for trial decryption after a failed open: every stored key is
  tried.
\<close>

definition every_key_tried :: "SSL_ECH list \<Rightarrow> nat list \<Rightarrow> bool" where
  "every_key_tried keys tried = list_all (\<lambda>i. i \<in> set tried) [0 ..< length keys]"

text \<open>
  Views for the statements: the \<^verbatim>\<open>config_id\<close> of the first config of a stored key, the
  plaintext of an attempt (\<open>None\<close> when it gave \<^verbatim>\<open>NULL\<close>), the position of the first
  stored key with a given \<^verbatim>\<open>config_id\<close>, and the position of the first stored key that opens
  the extension (the number of stored keys when there is none).
\<close>

definition key_config_id :: "SSL_ECH \<Rightarrow> byte option" where
  "key_config_id k =
     (case cfg k of None \<Rightarrow> None
      | Some c \<Rightarrow> (case recs c of [] \<Rightarrow> None | e # _ \<Rightarrow> Some (config_id e)))"

definition opened :: "ech_error + bytes \<Rightarrow> bytes option" where
  "opened r = (case r of Inl e \<Rightarrow> None | Inr clear \<Rightarrow> Some clear)"

definition first_with_id :: "SSL_ECH list \<Rightarrow> byte \<Rightarrow> nat" where
  "first_with_id keys cid = length (takeWhile (\<lambda>k. key_config_id k \<noteq> Some cid) keys)"

definition first_opening :: "(SSL_ECH \<Rightarrow> ech_error + bytes) \<Rightarrow> SSL_ECH list \<Rightarrow> nat" where
  "first_opening decrypt keys = length (takeWhile (\<lambda>k. opened (decrypt k) = None) keys)"

text \<open>
  The bound of the two loops is the number of configs of the first stored key
  (\<^verbatim>\<open>s->ech->cfg->nrecs\<close>), while the loops index the array of stored keys: the keys they
  examine are the stored keys below that bound.
\<close>

definition loop_bound :: "SSL_ECH list \<Rightarrow> nat" where
  "loop_bound keys =
     (case keys of [] \<Rightarrow> 0
      | k0 # _ \<Rightarrow> (case cfg k0 of None \<Rightarrow> 0 | Some c0 \<Rightarrow> nrecs c0))"

definition examined_keys :: "SSL_ECH list \<Rightarrow> SSL_ECH list" where
  "examined_keys keys = take (loop_bound keys) keys"

section \<open>The accept confirmation\<close>









text \<open>
  The ServerHello message with its handshake header: the type 2 and the length of the body
  in three octets.
\<close>

definition u24_bytes :: "nat \<Rightarrow> bytes" where
  "u24_bytes n = [of_nat (n div 2 ^ 16), of_nat (n div 2 ^ 8), of_nat n]"




section \<open>The AAD of the client and of the server\<close>

text \<open>
  A ClientHello is addressed by offsets. \<open>get_u16 ch i\<close> is \<^verbatim>\<open>ch[i]*256+ch[i+1]\<close>; the
  callers check that both octets are there.
\<close>

definition get_u16 :: "bytes \<Rightarrow> nat \<Rightarrow> nat" where
  "get_u16 ch i = unat (ch ! i) * 256 + unat (ch ! (i + 1))"

text \<open>
  The loop of \<^verbatim>\<open>ech_get_offsets\<close> over the extensions:
  \<^verbatim>\<open>while (extsremaining>0)\<close>, with \<open>e\<close> the offset of \<^verbatim>\<open>e_start\<close> in the ClientHello. It
  reads the four octets of type and length without looking at the length of the ClientHello.
  The result is \<^verbatim>\<open>*echoffset\<close> and \<^verbatim>\<open>*snioffset\<close>.
\<close>

function offsets_loop :: "bytes \<Rightarrow> nat \<Rightarrow> int \<Rightarrow> nat \<Rightarrow> nat \<Rightarrow> ech_error + nat \<times> nat" where
  "offsets_loop ch e extsremaining echoffset snioffset =
     (if extsremaining > 0 then
        (if e + 3 \<ge> length ch then Inl Out_of_bounds
         else
           (let etype = get_u16 ch e;
                elen = get_u16 ch (e + 2)
            in offsets_loop ch (e + (4 + elen)) (extsremaining - int (4 + elen))
                 (if etype = TLSEXT_TYPE_ech then e else echoffset)
                 (if etype = TLSEXT_TYPE_ech then snioffset
                  else if etype = TLSEXT_TYPE_server_name then e else snioffset)))
      else Inr (echoffset, snioffset))"
  by pat_completeness auto
termination
  by (relation "measure (\<lambda>(ch, e, extsremaining, echoffset, snioffset). nat extsremaining)") auto

declare offsets_loop.simps [simp del]

text \<open>
  \<^verbatim>\<open>ech_get_offsets(pkt, sessid, exts, echoffset, snioffset)\<close> on the ClientHello body
  \<open>ch\<close>. The result is the return value and the four offsets. The session id is taken to
  start at offset 34 and the compression methods to take two octets. The function returns 0
  when the extensions (with their length) are shorter than what stands before them plus two
  octets: \<^verbatim>\<open>if ((startofexts+2)>(ch_len-startofexts)) return 0;\<close>.
\<close>

definition ech_get_offsets :: "bytes \<Rightarrow> ech_error + int \<times> nat \<times> nat \<times> nat \<times> nat" where
  "ech_get_offsets ch =
     (let ch_len = length ch;
          sessid = 2 + 32
      in
      if sessid \<ge> ch_len then Inl Out_of_bounds
      else
        (let sessid_len = unat (ch ! sessid);
             genoffset = sessid + (1 + sessid_len)
         in
         if genoffset + 1 \<ge> ch_len then Inl Out_of_bounds
         else
           (let suiteslen = get_u16 ch genoffset;
                startofexts = genoffset + suiteslen + 2 + 2
            in
            if startofexts = ch_len then Inr (1, sessid, 0, 0, 0)
            else if startofexts > ch_len then Inr (0, sessid, 0, 0, 0)
            else if startofexts + 1 \<ge> ch_len then Inl Out_of_bounds
            else
              (let origextlens = get_u16 ch startofexts in
               if startofexts + 2 > ch_len - startofexts then Inr (0, sessid, startofexts, 0, 0)
               else
                 (case offsets_loop ch (startofexts + 2) (int origextlens - 2) 0 0 of
                    Inl e \<Rightarrow> Inl e
                  | Inr (echoffset, snioffset) \<Rightarrow>
                      Inr (1, sessid, startofexts, echoffset, snioffset))))))"

text \<open>
  The value of the ECH extension as \<^verbatim>\<open>ech_early_decrypt\<close> decodes it (lines 4048--4126):
  suite, \<^verbatim>\<open>config_id\<close>, \<^verbatim>\<open>enc\<close> and payload. \<open>None\<close> stands for the decode error, which
  raises an alert: a short packet, a length above the limit, or an empty \<^verbatim>\<open>enc\<close> or payload
  (nothing to allocate). What follows the payload is not looked at.
\<close>

definition parse_ech_value :: "bytes \<Rightarrow> ECH_ENCCH option" where
  "parse_ech_value pkt =
     (case PACKET_get_net_2 pkt of None \<Rightarrow> None | Some (kdf, p1) \<Rightarrow>
      case PACKET_get_net_2 p1 of None \<Rightarrow> None | Some (aead, p2) \<Rightarrow>
      case PACKET_copy_bytes p2 1 of None \<Rightarrow> None | Some (cid, p3) \<Rightarrow>
      case PACKET_get_net_2 p3 of None \<Rightarrow> None | Some (tmp, p4) \<Rightarrow>
        if tmp > MAX_ECH_ENC_LEN then None
        else if tmp > PACKET_remaining p4 then None
        else if OPENSSL_malloc_fails tmp then None
        else
          (case PACKET_copy_bytes p4 tmp of None \<Rightarrow> None | Some (encv, p5) \<Rightarrow>
           case PACKET_get_net_2 p5 of None \<Rightarrow> None | Some (tmp2, p6) \<Rightarrow>
             if tmp2 > MAX_ECH_PAYLOAD_LEN then None
             else if tmp2 > PACKET_remaining p6 then None
             else if OPENSSL_malloc_fails tmp2 then None
             else
               (case PACKET_copy_bytes p6 tmp2 of None \<Rightarrow> None | Some (payloadv, p7) \<Rightarrow>
                  Some \<lparr>kdf_id = kdf mod 2 ^ 16, aead_id = aead mod 2 ^ 16,
                        ech_config_id = hd cid, enc_len = tmp, enc = encv,
                        payload_len = tmp2, payload = payloadv\<rparr>)))"

text \<open>
  \<^verbatim>\<open>ech_srv_get_aad\<close>, writing into a buffer of \<open>aad_len\<close> octets. The macro
  \<^verbatim>\<open>CPCHECK\<close> looks at the position after each write, so that it only fires once the
  buffer has been overrun.
\<close>

definition ech_srv_get_aad :: "nat \<Rightarrow> nat \<Rightarrow> bytes \<Rightarrow> byte \<Rightarrow> bytes \<Rightarrow> nat \<Rightarrow> ech_error + bytes" where
  "ech_srv_get_aad kdf aead pubv cid de aad_len =
     (let pub_len = length pubv;
          de_len = length de;
          aad = [of_nat ((kdf mod 2 ^ 16) div 256), of_nat ((kdf mod 2 ^ 16) mod 256),
                 of_nat ((aead mod 2 ^ 16) div 256), of_nat ((aead mod 2 ^ 16) mod 256),
                 cid,
                 of_nat ((pub_len mod 2 ^ 16) div 256), of_nat ((pub_len mod 2 ^ 16) mod 256)]
                @ pubv
                @ [of_nat ((de_len mod 2 ^ 24) div (256 * 256)),
                   of_nat ((de_len mod 2 ^ 16) div 256),
                   of_nat ((de_len mod 2 ^ 16) mod 256)]
                @ de
      in if length aad > aad_len then Inl Out_of_bounds else Inr aad)"

text \<open>
  How the first part of \<^verbatim>\<open>ech_early_decrypt\<close> ends: it returns a value, with or without
  an alert, or it goes on to the key selection with what it found.
\<close>

datatype 'a early = Returned int bool | Goes_on 'a

text \<open>
  \<^verbatim>\<open>ech_early_decrypt\<close> up to the AAD (lines 3949--4160), on the received ClientHello body
  \<open>ch\<close>. \<open>sni_ok\<close> stands for \<^verbatim>\<open>tls_parse_ctos_server_name\<close> accepting the value of the
  outer server name extension. The ECH extension is cut out into the local buffer \<^verbatim>\<open>de\<close>
  of \<^verbatim>\<open>HPKE_MAXSIZE\<close> octets: what stands before the extensions, the new length of the
  extensions, the extensions before the ECH, and \<^verbatim>\<open>afterECH\<close> octets from offset
  \<^verbatim>\<open>echoffset+echlen\<close> on, where \<^verbatim>\<open>echlen\<close> is the length of the value of the extension;
  of that, \<^verbatim>\<open>ch_len-echlen-4\<close> octets are used. The offsets found before keep the
  subtractions from wrapping. A packet set up past the end of the ClientHello counts as a
  read out of bounds.
\<close>

definition ech_early_decrypt_aad :: "(bytes \<Rightarrow> bool) \<Rightarrow> bytes
    \<Rightarrow> ech_error + (ECH_ENCCH \<times> bytes) early" where
  "ech_early_decrypt_aad sni_ok ch =
     (let ch_len = length ch in
      case ech_get_offsets ch of
        Inl e \<Rightarrow> Inl e
      | Inr (rv, startofsessid, startofexts, echoffset, outersnioffset) \<Rightarrow>
          if rv \<noteq> 1 then Inr (Returned rv False)
          else if echoffset = 0 then Inr (Returned 1 False)
          else if unat (ch ! startofsessid) > SSL_MAX_SSL_SESSION_ID_LENGTH
          then Inr (Returned 0 True)
          else if startofsessid + 1 + unat (ch ! startofsessid) > ch_len then Inl Out_of_bounds
          else if outersnioffset > 0 \<and> outersnioffset + 3 \<ge> ch_len then Inl Out_of_bounds
          else if outersnioffset > 0
                  \<and> outersnioffset + 4 + get_u16 ch (outersnioffset + 2) > ch_len
          then Inl Out_of_bounds
          else if outersnioffset > 0
                  \<and> \<not> sni_ok (take (get_u16 ch (outersnioffset + 2))
                                  (drop (outersnioffset + 4) ch))
          then Inr (Returned 0 True)
          else if echoffset + 3 \<ge> ch_len then Inl Out_of_bounds
          else
            (let echlen = get_u16 ch (echoffset + 2) in
             if echoffset + 4 + echlen > ch_len then Inl Out_of_bounds
             else
               (case parse_ech_value (take echlen (drop (echoffset + 4) ch)) of
                  None \<Rightarrow> Inr (Returned 0 True)
                | Some extval \<Rightarrow>
                   (let newextlens = ch_len - echlen - startofexts - 6;
                        beforeECH = echoffset - startofexts - 2;
                        afterECH = ch_len - (echoffset + echlen);
                        de_buf = take startofexts ch
                           @ [of_nat ((newextlens mod 2 ^ 16) div 256),
                              of_nat ((newextlens mod 2 ^ 16) mod 256)]
                           @ take beforeECH (drop (startofexts + 2) ch)
                           @ take afterECH (drop (startofexts + 2 + beforeECH + echlen) ch);
                        de_len = ch_len - echlen - 4
                    in
                    if length de_buf > HPKE_MAXSIZE then Inl Out_of_bounds
                    else
                      (case ech_srv_get_aad (kdf_id extval) (aead_id extval) (enc extval)
                              (ech_config_id extval) (take de_len de_buf) HPKE_MAXSIZE of
                         Inl e \<Rightarrow> Inl e
                       | Inr aad \<Rightarrow> Inr (Goes_on (extval, aad)))))))"

text \<open>
  HPKE seal is a collaborator of the client: \<open>hpke_enc suite peerpub clear aad info mypub\<close>
  stands for \<^verbatim>\<open>hpke_enc_evp\<close> in base mode with the client's key pair, and gives the
  ciphertext or \<open>None\<close> for a return other than 1.
\<close>

type_synonym hpke_suite_t = "16 word \<times> 16 word \<times> 16 word"
type_synonym hpke_enc_fn = "hpke_suite_t \<Rightarrow> bytes \<Rightarrow> bytes \<Rightarrow> bytes \<Rightarrow> bytes \<Rightarrow> bytes \<Rightarrow> bytes option"

text \<open>
  \<^verbatim>\<open>WPACKET_put_bytes_u16\<close> and the closing of a sub-packet with a length of two octets:
  the value is written in two octets, and the call fails when it does not fit.
\<close>

definition put_u16 :: "nat \<Rightarrow> bytes option" where
  "put_u16 v = (if v \<ge> 2 ^ 16 then None else Some [of_nat (v div 256), of_nat (v mod 256)])"

text \<open>
  \<^verbatim>\<open>ech_aad_and_encrypt(s, pkt)\<close> from the selected config on (lines 3584--3699). The
  choice of the config \<open>tc\<close> and of the suite \<open>(kem, kdf, aead)\<close> in the lines before is
  not modelled: both are arguments, with \<open>buf\<close> the buffer \<^verbatim>\<open>tc->encoding_start\<close> points
  into. \<open>mypub\<close> is the public key that \<^verbatim>\<open>hpke_kg_evp\<close> made (\<open>None\<close> when it failed),
  \<open>clear\<close> the encoded inner ClientHello, \<open>data\<close> the \<^verbatim>\<open>pkt->written\<close> octets of the
  message so far, handshake header included. The result is the AAD and the message with the
  ECH extension appended and the length of the extensions rewritten. The length of the
  session id is taken from \<^verbatim>\<open>s->tmp_session_id_len\<close>, not from the message. Reads past the
  written octets count as out of bounds.
\<close>

definition ech_aad_and_encrypt :: "hpke_enc_fn \<Rightarrow> nat \<Rightarrow> hpke_suite_t \<Rightarrow> bytes \<Rightarrow> ECHConfig
    \<Rightarrow> bytes option \<Rightarrow> bytes \<Rightarrow> bytes \<Rightarrow> ech_error + bytes \<times> bytes" where
  "ech_aad_and_encrypt hpke_enc tmp_session_id_len suite buf tc mypub clear data =
     (let kdf = unat (fst (snd suite));
          aead = unat (snd (snd suite));
          written = length data
      in
      if pub_len tc \<le> 0 then Inl Err
      else
        (case mypub of
           None \<Rightarrow> Inl Err
         | Some mypubv \<Rightarrow>
            (let mypub_len = length mypubv in
             if mypub_len > HPKE_MAXSIZE then Inl Err
             else if written < 4 then Inl Out_of_bounds
             else
               (let aad = [of_nat ((kdf mod 2 ^ 16) div 256), of_nat ((kdf mod 2 ^ 16) mod 256),
                           of_nat ((aead mod 2 ^ 16) div 256), of_nat ((aead mod 2 ^ 16) mod 256),
                           config_id tc,
                           of_nat ((mypub_len mod 2 ^ 16) div 256),
                           of_nat ((mypub_len mod 2 ^ 16) mod 256)]
                          @ mypubv
                          @ [of_nat (((written - 4) mod 2 ^ 24) div (256 * 256)),
                             of_nat (((written - 4) mod 2 ^ 24) div 256),
                             of_nat ((written - 4) mod 256)]
                          @ drop 4 data
                in
                case ech_make_enc_info buf tc HPKE_MAXSIZE of
                  Inl e \<Rightarrow> Inl e
                | Inr info \<Rightarrow>
                   (case hpke_enc suite (pub tc) clear aad info mypubv of
                      None \<Rightarrow> Inl Err
                    | Some cipher \<Rightarrow>
                       (let cipherlen = length cipher;
                            sub = [of_nat (kdf div 256), of_nat (kdf mod 256),
                                   of_nat (aead div 256), of_nat (aead mod 256), config_id tc]
                       in
                        case (put_u16 TLSEXT_TYPE_ech, put_u16 mypub_len, put_u16 cipherlen,
                              put_u16 (2 + 2 + 1 + (2 + mypub_len) + (2 + cipherlen))) of
                          (Some ty, Some pl, Some cl, Some sl) \<Rightarrow>
                            (let data1 = data @ ty @ sl @ sub @ pl @ mypubv @ cl @ cipher;
                                 newlen = 6 + 2 + 2 + 3 + mypub_len + cipherlen;
                                 genoffset = 6 + 32 + 1 + tmp_session_id_len
                             in
                             if genoffset + 1 \<ge> length data1 then Inl Out_of_bounds
                             else
                               (let suiteslen = get_u16 data1 genoffset;
                                    startofexts = genoffset + suiteslen + 2 + 2
                                in
                                if startofexts + 1 \<ge> length data1 then Inl Out_of_bounds
                                else
                                  (let origextlens = get_u16 data1 startofexts;
                                       newextlens = origextlens + newlen
                                   in Inr (aad,
                                        data1[startofexts :=
                                                of_nat ((newextlens mod 2 ^ 16) div 256),
                                              startofexts + 1 :=
                                                of_nat ((newextlens mod 2 ^ 16) mod 256)]))))
                        | _ \<Rightarrow> Inl Err))))))"

text \<open>
  The specification's words for the AAD: the suite, the \<^verbatim>\<open>config_id\<close>, the length of
  \<^verbatim>\<open>enc\<close> in two octets, \<^verbatim>\<open>enc\<close>, the length of the body of the outer ClientHello without
  the ECH extension in three octets, and that body.
\<close>

definition spec_aad :: "nat \<Rightarrow> nat \<Rightarrow> byte \<Rightarrow> bytes \<Rightarrow> bytes \<Rightarrow> bytes" where
  "spec_aad kdf aead cid encv outer_body =
     u16_bytes kdf @ u16_bytes aead @ [cid] @ u16_bytes (length encv) @ encv
       @ u24_bytes (length outer_body) @ outer_body"

text \<open>
  The wire form of a ClientHello: an extension with its type and its value, a list of
  extensions, and the body from the version to the end of the extensions, with the
  compression methods in two octets.
\<close>

definition ext_wire :: "nat \<times> bytes \<Rightarrow> bytes" where
  "ext_wire e = u16_bytes (fst e) @ u16_bytes (length (snd e)) @ snd e"

definition exts_wire :: "(nat \<times> bytes) list \<Rightarrow> bytes" where
  "exts_wire es = concat (map ext_wire es)"

definition ch_body :: "bytes \<Rightarrow> bytes \<Rightarrow> bytes \<Rightarrow> bytes \<Rightarrow> bytes \<Rightarrow> bytes" where
  "ch_body vr sid suites compr extbytes =
     vr @ [of_nat (length sid)] @ sid @ u16_bytes (length suites) @ suites @ compr
       @ u16_bytes (length extbytes) @ extbytes"

text \<open>
  The extensions that the first part of \<^verbatim>\<open>ech_early_decrypt\<close> can walk: types and lengths
  fit two octets, and each server name extension has a value that the parser accepts.
\<close>

definition exts_ok :: "(bytes \<Rightarrow> bool) \<Rightarrow> (nat \<times> bytes) list \<Rightarrow> bool" where
  "exts_ok sni_ok es =
     list_all (\<lambda>e. fst e < 2 ^ 16 \<and> length (snd e) < 2 ^ 16
                   \<and> (fst e = TLSEXT_TYPE_server_name \<longrightarrow> sni_ok (snd e))) es"

text \<open>
  What the loop of \<^verbatim>\<open>ech_get_offsets\<close> finds in a list of extensions that starts at offset
  \<open>off\<close>: the offsets of the last ECH extension and of the last server name extension.
\<close>

fun scan_exts :: "(nat \<times> bytes) list \<Rightarrow> nat \<Rightarrow> nat \<Rightarrow> nat \<Rightarrow> nat \<times> nat" where
  "scan_exts [] off echoffset snioffset = (echoffset, snioffset)"
| "scan_exts (e # es) off echoffset snioffset =
     scan_exts es (off + (4 + length (snd e)))
       (if fst e = TLSEXT_TYPE_ech then off else echoffset)
       (if fst e = TLSEXT_TYPE_ech then snioffset
        else if fst e = TLSEXT_TYPE_server_name then off else snioffset)"

text \<open>
  The value of the ECH extension on the wire: suite, \<^verbatim>\<open>config_id\<close>, \<^verbatim>\<open>enc\<close> and payload,
  the last two with their lengths.
\<close>

definition ech_value :: "nat \<Rightarrow> nat \<Rightarrow> byte \<Rightarrow> bytes \<Rightarrow> bytes \<Rightarrow> bytes" where
  "ech_value kdf aead cid encv payloadv =
     u16_bytes kdf @ u16_bytes aead @ [cid] @ u16_bytes (length encv) @ encv
       @ u16_bytes (length payloadv) @ payloadv"

text \<open>
  A sample outer ClientHello before the ECH extension is added: a handshake header, version
  and random, a session id of two octets, one cipher suite, no compression, a server name
  extension and one more extension. The stand-ins accept any server name that is not empty
  and seal to 80 octets; the selected config has the \<^verbatim>\<open>config_id\<close> 0x77.
\<close>

definition sample_hdr :: bytes where "sample_hdr = [0x01, 0, 0, 0]"
definition sample_vr :: bytes where "sample_vr = [0x03, 0x03] @ replicate 32 0x07"
definition sample_sid :: bytes where "sample_sid = [0x09, 0x09]"
definition sample_suites :: bytes where "sample_suites = [0x13, 0x01]"
definition sample_exts :: "(nat \<times> bytes) list" where
  "sample_exts = [(0, [0x01, 0x02, 0x03]), (10, [0x05])]"
definition sample_sni_ok :: "bytes \<Rightarrow> bool" where "sample_sni_ok d = (d \<noteq> [])"
definition sample_seal :: hpke_enc_fn where
  "sample_seal suite peerpub clear aad info mypubv = Some (replicate 80 0xcc)"
definition sample_tc :: ECHConfig where
  "sample_tc = ECHConfig_zero\<lparr>config_id := 0x77, pub_len := 1, pub := [0x01]\<rparr>"

section \<open>The encoded inner ClientHello\<close>


text \<open>
  \<^verbatim>\<open>RAW_EXTENSION\<close>, as far as \<^verbatim>\<open>ech_encode_inner\<close> reads it: whether the extension is
  present, its type, and its value (\<open>None\<close> when \<^verbatim>\<open>data.curr\<close> is \<^verbatim>\<open>NULL\<close>).
\<close>

record RAW_EXTENSION =
  present :: bool
  ext_type :: nat
  ext_data :: "bytes option"

text \<open>\<^verbatim>\<open>WPACKET_put_bytes_u8\<close>: one octet, and a failure when the value does not fit.\<close>

definition put_u8 :: "nat \<Rightarrow> bytes option" where
  "put_u8 v = (if v \<ge> 2 ^ 8 then None else Some [of_nat v])"

text \<open>
  The types of the \<^verbatim>\<open>outer_extensions\<close> record:
  \<^verbatim>\<open>for (iind=0;iind!=s->ext.n_outer_only;iind++)\<close>.
\<close>

fun put_outer_types :: "nat list \<Rightarrow> bytes option" where
  "put_outer_types [] = Some []"
| "put_outer_types (t # ts) =
     (case put_u16 t of
        None \<Rightarrow> None
      | Some a \<Rightarrow> (case put_outer_types ts of None \<Rightarrow> None | Some b \<Rightarrow> Some (a @ b)))"

text \<open>
  The \<^verbatim>\<open>outer_extensions\<close> record that \<^verbatim>\<open>ech_encode_inner\<close> writes (lines 2563--2578):
  the type, the length \<^verbatim>\<open>2*n_outer_only+1\<close>, the octet \<^verbatim>\<open>2*n_outer_only\<close>, and all the
  types of \<^verbatim>\<open>s->ext.outer_only\<close>.
\<close>

definition outer_extensions_record :: "nat list \<Rightarrow> bytes option" where
  "outer_extensions_record outer_only =
     (case (put_u16 TLSEXT_TYPE_outer_extensions, put_u16 (2 * length outer_only + 1),
            put_u8 (2 * length outer_only), put_outer_types outer_only) of
        (Some ty, Some ln, Some cnt, Some tys) \<Rightarrow> Some (ty @ ln @ cnt @ tys)
      | _ \<Rightarrow> None)"

text \<open>
  One extension written in full (lines 2580--2595): type, length and value, or type and a
  zero length when there is no value.
\<close>

definition put_raw_extension :: "RAW_EXTENSION \<Rightarrow> bytes option" where
  "put_raw_extension r =
     (case ext_data r of
        Some d \<Rightarrow>
          (case (put_u16 (ext_type r), put_u16 (length d)) of
             (Some ty, Some ln) \<Rightarrow> Some (ty @ ln @ d)
           | _ \<Rightarrow> None)
      | None \<Rightarrow>
          (case (put_u16 (ext_type r), put_u16 0) of
             (Some ty, Some ln) \<Rightarrow> Some (ty @ ln)
           | _ \<Rightarrow> None))"

text \<open>
  The loop of \<^verbatim>\<open>ech_encode_inner\<close> over the raw extensions (lines 2548--2596):
  \<^verbatim>\<open>for (ind=0;ind!=nraws;ind++)\<close>. Extensions that are not present are skipped; an
  extension whose type is in \<^verbatim>\<open>outer_only\<close> is to be compressed; the first such extension
  makes the loop write the \<^verbatim>\<open>outer_extensions\<close> record; every extension that is not to be
  compressed is written in full.
\<close>

fun encode_exts :: "nat list \<Rightarrow> RAW_EXTENSION list \<Rightarrow> bool \<Rightarrow> bytes option" where
  "encode_exts outer_only [] compression_done = Some []"
| "encode_exts outer_only (r # rs) compression_done =
     (if \<not> present r then encode_exts outer_only rs compression_done
      else
        (let tobecompressed = list_ex (\<lambda>t. ext_type r = t) outer_only in
         case (if \<not> compression_done \<and> tobecompressed
               then outer_extensions_record outer_only else Some []) of
           None \<Rightarrow> None
         | Some a \<Rightarrow>
            (case (if \<not> tobecompressed then put_raw_extension r else Some []) of
               None \<Rightarrow> None
             | Some b \<Rightarrow>
                (case encode_exts outer_only rs (compression_done \<or> tobecompressed) of
                   None \<Rightarrow> None
                 | Some c \<Rightarrow> Some (a @ b @ c)))))"

text \<open>
  \<^verbatim>\<open>ech_encode_inner(s)\<close>. Of the session it uses the version, the 32 octets of the client
  random, the cipher suites as \<^verbatim>\<open>ssl_cipher_list_to_bytes\<close> writes them (\<open>None\<close> when it
  fails), \<^verbatim>\<open>s->ext.outer_only\<close> and the raw extensions of the inner ClientHello. The session
  id is written empty, the compression methods as the null method alone. The result is
  \<^verbatim>\<open>s->ext.encoded_innerch\<close>: the message without its type and three octets of length.
\<close>

definition ech_encode_inner :: "nat \<Rightarrow> bytes \<Rightarrow> bytes option \<Rightarrow> nat list \<Rightarrow> RAW_EXTENSION list
    \<Rightarrow> ech_error + bytes" where
  "ech_encode_inner client_version client_random ciphers outer_only raws =
     (case put_u16 client_version of
        None \<Rightarrow> Inl Err
      | Some vr \<Rightarrow>
         (case put_u8 0 of
            None \<Rightarrow> Inl Err
          | Some sidl \<Rightarrow>
             (case ciphers of
                None \<Rightarrow> Inl Err
              | Some cs \<Rightarrow>
                 (case (put_u16 (length cs), put_u8 1, put_u8 0) of
                    (Some csl, Some cml, Some cm) \<Rightarrow>
                      (case encode_exts outer_only raws False of
                         None \<Rightarrow> Inl Err
                       | Some ex \<Rightarrow>
                          (case put_u16 (length ex) of
                             None \<Rightarrow> Inl Err
                           | Some exl \<Rightarrow>
                              (let body = vr @ client_random @ sidl @ csl @ cs @ cml @ cm
                                          @ exl @ ex
                               in if length body \<ge> 2 ^ 24 then Inl Err else Inr body)))
                  | _ \<Rightarrow> Inl Err))))"








text \<open>
  The inner ClientHello as a message, and its parts: the extensions of the raw extensions that
  are present, in their order, each with its value (empty when there is none).
\<close>

definition present_exts :: "RAW_EXTENSION list \<Rightarrow> (nat \<times> bytes) list" where
  "present_exts raws =
     map (\<lambda>r. (ext_type r, case ext_data r of None \<Rightarrow> [] | Some d \<Rightarrow> d))
         (filter present raws)"


text \<open>
  The \<^verbatim>\<open>outer_extensions\<close> extension of the specification: one octet with twice the
  number of types, then the types.
\<close>

definition outer_extensions_ext :: "nat list \<Rightarrow> nat \<times> bytes" where
  "outer_extensions_ext outer_only =
     (TLSEXT_TYPE_outer_extensions,
      [of_nat (2 * length outer_only)] @ concat (map u16_bytes outer_only))"



definition sample_random :: bytes where "sample_random = replicate 32 0x07"

definition sample_outer :: bytes where
  "sample_outer = ch_body (u16_bytes 0x0303 @ sample_random) sample_sid sample_suites [0x01, 0x00]
     (exts_wire [(0, [0x03]), (10, [0x0a]), (51, [0x0b, 0x0b])])"


text \<open>
  The specification's words for the compression: going through the extensions of the inner
  in order, the first extension to be compressed is replaced by the \<^verbatim>\<open>outer_extensions\<close>
  extension, the later ones are left out, and the others stay as they are.
\<close>

fun compress_exts :: "nat list \<Rightarrow> bool \<Rightarrow> (nat \<times> bytes) list \<Rightarrow> (nat \<times> bytes) list" where
  "compress_exts outer_only compression_done [] = []"
| "compress_exts outer_only compression_done (e # es) =
     (if fst e \<in> set outer_only
      then (if compression_done then [] else [outer_extensions_ext outer_only])
           @ compress_exts outer_only True es
      else e # compress_exts outer_only compression_done es)"

text \<open>Extensions whose type and length fit two octets each.\<close>

definition exts_fit :: "(nat \<times> bytes) list \<Rightarrow> bool" where
  "exts_fit es = list_all (\<lambda>e. fst e < 2 ^ 16 \<and> length (snd e) < 2 ^ 16) es"

section \<open>Properties: flushing the key store\<close>

text \<open>
  The loop invariant: after the loop has looked at the first \<open>i\<close> entries and deleted
  \<open>deleted\<close> of them, the survivors stand in the first \<open>i - deleted\<close> slots, in order.
\<close>

lemma flush_loop_inv:
  "i \<le> n \<Longrightarrow> n \<le> length arr \<Longrightarrow> deleted \<le> i \<Longrightarrow>
   flush_loop now age n i deleted arr = (arr', d') \<Longrightarrow>
   length arr' = length arr \<and> deleted \<le> d' \<and> d' \<le> n \<and>
   take (n - d') arr' = take (i - deleted) arr @ filter (flush_keeps now age) (take (n - i) (drop i arr))"
proof (induction now age n i deleted arr rule: flush_loop.induct)
  case (1 now age n i deleted arr)
  show ?case
  proof (cases "i < n")
    case False
    with "1.prems" show ?thesis by (simp add: flush_loop.simps)
  next
    case lt: True
    then have il: "i < length arr" using "1.prems" by simp
    have dr: "drop i arr = arr ! i # drop (Suc i) arr"
      using il by (simp add: Cons_nth_drop_Suc)
    have tk: "take (n - i) (drop i arr) = arr ! i # take (n - Suc i) (drop (Suc i) arr)"
    proof -
      have "n - i = Suc (n - Suc i)" using lt by simp
      then show ?thesis using dr by (metis take_Suc_Cons)
    qed
    show ?thesis
    proof (cases "time_t_add (loadtime (arr ! i)) age \<le> now")
      case True
      let ?a = "arr[i := SSL_ECH_free (arr ! i)]"
      have run: "flush_loop now age n (i + 1) (deleted + 1) ?a = (arr', d')"
        using "1.prems"(4) lt True by (simp add: flush_loop.simps [of now age n i])
      have ih: "length arr' = length ?a \<and> deleted + 1 \<le> d' \<and> d' \<le> n \<and>
         take (n - d') arr' = take (i + 1 - (deleted + 1)) ?a
            @ filter (flush_keeps now age) (take (n - (i + 1)) (drop (i + 1) ?a))"
        using "1.IH"(1) [OF lt True _ _ _ run] lt "1.prems" by simp
      have "\<not> flush_keeps now age (arr ! i)" using True by (simp add: flush_keeps_def)
      then show ?thesis using ih tk by simp
    next
      case False
      let ?a = "arr[i - deleted := arr ! i]"
      have run: "flush_loop now age n (i + 1) deleted ?a = (arr', d')"
        using "1.prems"(4) lt False by (simp add: flush_loop.simps [of now age n i])
      have ih: "length arr' = length ?a \<and> deleted \<le> d' \<and> d' \<le> n \<and>
         take (n - d') arr' = take (i + 1 - deleted) ?a
            @ filter (flush_keeps now age) (take (n - (i + 1)) (drop (i + 1) ?a))"
        using "1.IH"(2) [OF lt False _ _ _ run] lt "1.prems" by simp
      have k: "flush_keeps now age (arr ! i)" using False by (simp add: flush_keeps_def)
      have s: "i + 1 - deleted = Suc (i - deleted)" using "1.prems"(3) by simp
      have t1: "take (Suc (i - deleted)) ?a = take (i - deleted) arr @ [arr ! i]"
        using il by (simp add: take_Suc_conv_app_nth)
      have t2: "drop (Suc i) ?a = drop (Suc i) arr" by simp
      show ?thesis using ih tk k s t1 t2 by simp
    qed
  qed
qed

lemma stored_keys_flushed:
  assumes "wf_store c"
  shows "stored_keys (flushed c now age)
           = (if age \<le> 0 then [] else filter (flush_keeps now age) (stored_keys c))"
proof (cases "ech c")
  case None
  then show ?thesis
    by (simp add: flushed_def SSL_CTX_ech_server_flush_keys_def stored_keys_def)
next
  case (Some arr)
  then have le: "nechs c \<le> length arr" using assms by (simp add: wf_store_def)
  show ?thesis
  proof (cases "nechs c = 0 \<or> age \<le> 0")
    case True
    then show ?thesis using Some
      by (auto simp: flushed_def SSL_CTX_ech_server_flush_keys_def stored_keys_def)
  next
    case False
    obtain arr' d' where run: "flush_loop now age (nechs c) 0 0 arr = (arr', d')"
      by (cases "flush_loop now age (nechs c) 0 0 arr") auto
    from flush_loop_inv [OF _ le _ run]
    have "take (nechs c - d') arr' = filter (flush_keeps now age) (take (nechs c) arr)"
      by simp
    then show ?thesis using Some False run
      by (simp add: flushed_def SSL_CTX_ech_server_flush_keys_def stored_keys_def)
  qed
qed

lemma key_status_flushed:
  assumes "wf_store c"
  shows "SSL_CTX_ech_server_key_status (flushed c now age) = length (stored_keys (flushed c now age))"
proof (cases "ech c")
  case None
  then show ?thesis
    by (simp add: flushed_def SSL_CTX_ech_server_flush_keys_def stored_keys_def
        SSL_CTX_ech_server_key_status_def)
next
  case (Some arr)
  then have le: "nechs c \<le> length arr" using assms by (simp add: wf_store_def)
  show ?thesis
  proof (cases "nechs c = 0 \<or> age \<le> 0")
    case True
    then show ?thesis using Some le
      by (auto simp: flushed_def SSL_CTX_ech_server_flush_keys_def stored_keys_def
        SSL_CTX_ech_server_key_status_def)
  next
    case False
    obtain arr' d' where run: "flush_loop now age (nechs c) 0 0 arr = (arr', d')"
      by (cases "flush_loop now age (nechs c) 0 0 arr") auto
    from flush_loop_inv [OF _ le _ run]
    have "length arr' = length arr" by simp
    then show ?thesis using Some False run le
      by (simp add: flushed_def SSL_CTX_ech_server_flush_keys_def stored_keys_def
        SSL_CTX_ech_server_key_status_def)
  qed
qed

lemma flush_returns_1: "fst (SSL_CTX_ech_server_flush_keys (Some c) now age) = 1"
  by (simp add: SSL_CTX_ech_server_flush_keys_def split: option.splits prod.splits)

text \<open>A sum that fits \<^verbatim>\<open>time_t\<close> is the sum the machine gives.\<close>

lemma time_t_add_fits: "time_t_fits (t + a) \<Longrightarrow> time_t_add t a = t + a"
  by (simp add: time_t_fits_def time_t_add_def TIME_T_BITS_def)

lemma flush_keeps_loaded_within:
  "time_t_fits (loadtime k + age) \<Longrightarrow> flush_keeps now age k = loaded_within now age k"
  by (auto simp: flush_keeps_def loaded_within_def time_t_add_fits)

text \<open>
  Claim C8, as the code has it. On a well-formed store whose load times plus \<open>age\<close> fit
  \<^verbatim>\<open>time_t\<close>, \<^verbatim>\<open>SSL_CTX_ech_server_flush_keys\<close> returns 1; with \<open>age \<le> 0\<close> the store is
  left empty; otherwise the keys left are exactly those with \<^verbatim>\<open>loadtime + age > now\<close>, in
  their original relative order (a key loaded exactly \<open>age\<close> seconds before the call is
  removed); the key count is the number of keys left; and when no key qualifies the store is
  unchanged.
\<close>

theorem flush_keys_by_age:
  assumes "wf_store c"
    and "\<forall>k\<in>set (stored_keys c). time_t_fits (loadtime k + age)"
  shows "fst (SSL_CTX_ech_server_flush_keys (Some c) now age) = 1
       \<and> stored_keys (flushed c now age)
           = (if age \<le> 0 then [] else filter (loaded_within now age) (stored_keys c))
       \<and> SSL_CTX_ech_server_key_status (flushed c now age)
           = length (stored_keys (flushed c now age))
       \<and> (0 < age \<and> list_all (loaded_within now age) (stored_keys c)
            \<longrightarrow> stored_keys (flushed c now age) = stored_keys c)"
proof -
  have eq: "filter (flush_keeps now age) (stored_keys c)
      = filter (loaded_within now age) (stored_keys c)"
    using assms(2) by (intro filter_cong refl) (simp add: flush_keeps_loaded_within)
  have "list_all (loaded_within now age) (stored_keys c)
      \<Longrightarrow> filter (loaded_within now age) (stored_keys c) = stored_keys c"
    by (simp add: list_all_iff)
  then show ?thesis
    using flush_returns_1 stored_keys_flushed [OF assms(1)] key_status_flushed [OF assms(1)] eq
    by simp
qed

text \<open>
  Where the sum does not fit, the machine's sum decides: a key whose load time is the last
  second of \<^verbatim>\<open>time_t\<close> is flushed with age 1 at any time.
\<close>

lemma flush_wraps_around:
  "stored_keys (flushed (store_of [key_loaded_at (2 ^ 63 - 1)]) 1000 1) = []"
  by (simp add: flushed_def SSL_CTX_ech_server_flush_keys_def store_of_def stored_keys_def
      flush_loop.simps key_loaded_at_def SSL_ECH_free_def SSL_ECH_zero_def time_t_add_def
      TIME_T_BITS_def)

lemma wf_store_of: "wf_store (store_of ks)"
  by (simp add: wf_store_def store_of_def)

text \<open>Scenario S6 of the specification: keys loaded at 100, 200 and 300, flushed at 310 with age 100.\<close>

theorem flush_keys_by_age_witness:
  "wf_store (store_of [key_loaded_at 100, key_loaded_at 200, key_loaded_at 300])
   \<and> stored_keys (flushed (store_of [key_loaded_at 100, key_loaded_at 200, key_loaded_at 300]) 310 100)
       = [key_loaded_at 300]
   \<and> SSL_CTX_ech_server_key_status
        (flushed (store_of [key_loaded_at 100, key_loaded_at 200, key_loaded_at 300]) 310 100) = 1"
proof -
  let ?ks = "[key_loaded_at 100, key_loaded_at 200, key_loaded_at 300]"
  have h: "wf_store (store_of ?ks)" by (rule wf_store_of)
  have sk: "stored_keys (store_of ?ks) = ?ks" by (simp add: store_of_def stored_keys_def)
  have fits: "\<forall>k\<in>set (stored_keys (store_of ?ks)). time_t_fits (loadtime k + 100)"
    unfolding sk by (simp add: time_t_fits_def TIME_T_BITS_def key_loaded_at_def)
  have fl: "\<not> loaded_within 310 100 (key_loaded_at 100)"
    "\<not> loaded_within 310 100 (key_loaded_at 200)"
    "loaded_within 310 100 (key_loaded_at 300)"
    by (simp_all add: loaded_within_def key_loaded_at_def)
  from flush_keys_by_age [OF h fits, of 310]
  have "stored_keys (flushed (store_of ?ks) 310 100) = [key_loaded_at 300]
      \<and> SSL_CTX_ech_server_key_status (flushed (store_of ?ks) 310 100)
          = length (stored_keys (flushed (store_of ?ks) 310 100))"
    by (simp add: sk fl)
  then show ?thesis using h by simp
qed

text \<open>
  Claim C8 as the specification words it (``loaded more than \<open>age\<close> seconds before'') fails on
  the boundary: a key loaded exactly \<open>age\<close> seconds before the call is removed.
\<close>

theorem flush_keys_boundary_counterexample:
  "stored_keys (flushed (store_of [key_loaded_at 100]) 200 100) = []
   \<and> filter (spec_flush_keeps 200 100) (stored_keys (store_of [key_loaded_at 100])) = [key_loaded_at 100]"
  by (simp add: flushed_def SSL_CTX_ech_server_flush_keys_def store_of_def stored_keys_def
      flush_loop.simps key_loaded_at_def spec_flush_keeps_def spec_flush_removes_def SSL_ECH_free_def
      time_t_add_def TIME_T_BITS_def)

section \<open>Properties: decoding an ECHConfigs\<close>

subsection \<open>The readers on a given encoding\<close>

lemma length_u16_bytes [simp]: "length (u16_bytes v) = 2"
  by (simp add: u16_bytes_def)

lemma unat_of_nat_byte: "unat (of_nat n :: byte) = n mod 256"
  by (simp add: unat_of_nat)

lemma get_net_2_u16:
  "v < 65536 \<Longrightarrow> PACKET_get_net_2 (u16_bytes v @ xs) = Some (v, xs)"
proof -
  assume v: "v < 65536"
  then have "v div 256 < 256" by simp
  then have "(v div 256) mod 256 = v div 256" by simp
  then show ?thesis
    by (simp add: PACKET_get_net_2_def PACKET_remaining_def u16_bytes_def unat_of_nat_byte)
qed

lemma copy_bytes_append:
  "PACKET_copy_bytes (a @ xs) (length a) = Some (a, xs)"
  by (simp add: PACKET_copy_bytes_def PACKET_remaining_def)

lemma get_length_prefixed_2_wire:
  "length a < 65536 \<Longrightarrow>
   PACKET_get_length_prefixed_2 (u16_bytes (length a) @ a @ xs) = Some (a, xs)"
  by (simp add: PACKET_get_length_prefixed_2_def get_net_2_u16 copy_bytes_append)

lemma read_pub_wire:
  "length a < 65536 \<Longrightarrow> read_pub (u16_bytes (length a) @ a @ xs)
     = (if 0 < length a then Some ((length a, a), xs) else None)"
  by (simp add: read_pub_def get_length_prefixed_2_wire PACKET_remaining_def
      PACKET_copy_bytes_def OPENSSL_malloc_fails_def)

lemma copy_suites_eq:
  "copy_suites cs acc = (acc @ suites_of cs, drop (4 * (length cs div 4)) cs)"
proof (induction cs acc rule: copy_suites.induct)
  case (1 cs acc)
  show ?case
  proof (cases "length cs < 4")
    case True
    then show ?thesis
      by (simp add: copy_suites.simps [of cs] suites_of.simps [of cs] PACKET_copy_bytes_def
          PACKET_remaining_def ECH_CIPHER_LEN_def)
  next
    case False
    then have c: "PACKET_copy_bytes cs ECH_CIPHER_LEN = Some (take 4 cs, drop 4 cs)"
      by (simp add: PACKET_copy_bytes_def PACKET_remaining_def ECH_CIPHER_LEN_def)
    have d: "length cs div 4 = Suc ((length cs - 4) div 4)"
      using False by arith
    have "copy_suites cs acc = copy_suites (drop 4 cs) (acc @ [take 4 cs])"
      using c by (simp add: copy_suites.simps [of cs])
    also have "\<dots> = ((acc @ [take 4 cs]) @ suites_of (drop 4 cs),
        drop (4 * (length (drop 4 cs) div 4)) (drop 4 cs))"
      using "1.IH" [OF c refl] .
    finally show ?thesis
      using False d by (simp add: suites_of.simps [of cs] add.commute)
  qed
qed

lemma length_suites_of: "length (suites_of bs) = length bs div 4"
proof (induction bs rule: suites_of.induct)
  case (1 bs)
  show ?case
  proof (cases "length bs < 4")
    case True
    then show ?thesis by (simp add: suites_of.simps [of bs])
  next
    case False
    then have "length bs div 4 = Suc ((length bs - 4) div 4)" by arith
    then show ?thesis using False "1.IH" by (simp add: suites_of.simps [of bs])
  qed
qed

lemma suites_of_all_4: "s \<in> set (suites_of bs) \<Longrightarrow> length s = 4"
proof (induction bs rule: suites_of.induct)
  case (1 bs)
  then show ?case
    by (cases "length bs < 4") (auto simp: suites_of.simps [of bs])
qed

lemma read_ciphersuites_wire:
  assumes "length ss < 65536"
  shows "read_ciphersuites (u16_bytes (length ss) @ ss @ xs)
       = (if 0 < length ss \<and> length ss mod 4 = 0
          then Some ((length ss div 4, suites_of ss), xs) else None)"
proof -
  have m: "length ss \<le> 4 * (length ss div 4) \<longleftrightarrow> length ss mod 4 = 0"
    by arith
  have z: "length ss div 4 = 0 \<Longrightarrow> 0 < length ss \<Longrightarrow> length ss mod 4 \<noteq> 0"
    by arith
  have g: "PACKET_get_length_prefixed_2 (u16_bytes (length ss) @ ss @ xs) = Some (ss, xs)"
    by (rule get_length_prefixed_2_wire [OF assms])
  show ?thesis
    unfolding read_ciphersuites_def g
    using z
    by (auto simp: Let_def PACKET_remaining_def copy_suites_eq ECH_CIPHER_LEN_def m
        OPENSSL_malloc_fails_def)
qed

lemma read_public_name_wire:
  assumes "length pn < 65536"
  shows "read_public_name (u16_bytes (length pn) @ pn @ xs)
       = (if 1 < length pn \<and> length pn \<le> TLSEXT_MAXLEN_host_name
          then Some ((length pn, pn @ [0]), xs) else None)"
  using assms
  by (auto simp: read_public_name_def get_length_prefixed_2_wire PACKET_remaining_def
      PACKET_copy_bytes_def)

subsection \<open>What every decoded config satisfies\<close>

lemma read_ciphersuites_Some:
  assumes "read_ciphersuites p = Some ((n, ss), p')"
  shows "0 < n \<and> length ss = n \<and> list_all (\<lambda>s. length s = ECH_CIPHER_LEN) ss"
proof -
  from assms obtain cs where
    cs: "0 < length cs" "length cs \<le> 4 * (length cs div 4)"
        "n = length cs div 4" "ss = suites_of cs"
    by (auto simp: read_ciphersuites_def Let_def PACKET_remaining_def copy_suites_eq
        ECH_CIPHER_LEN_def OPENSSL_malloc_fails_def split: option.splits if_splits)
  from cs(1) have "0 < length cs" by simp
  with cs(2) have "0 < length cs div 4" by arith
  then have n0: "0 < n" using cs(3) by simp
  have "length ss = n" using cs(3,4) by (simp add: length_suites_of)
  moreover have "list_all (\<lambda>s. length s = ECH_CIPHER_LEN) ss"
    using cs(4) by (simp add: list_all_iff suites_of_all_4 ECH_CIPHER_LEN_def)
  ultimately show ?thesis using n0 by simp
qed

lemma read_public_name_Some:
  assumes "read_public_name p = Some ((n, nm), p')"
  shows "1 < n \<and> n \<le> TLSEXT_MAXLEN_host_name \<and> length nm = n + 1 \<and> nm ! n = 0"
  using assms
  by (auto simp: read_public_name_def Let_def PACKET_remaining_def PACKET_copy_bytes_def
      nth_append split: option.splits if_splits)

lemma ech_draft10_body_fields:
  assumes "ech_draft10_body ec p = Some (ec', p')"
  shows "suites_ok ec' \<and> public_name_ok ec'"
proof -
  from assms obtain ns suites p3 p4 pnlen pn p5 p6 where
    s: "read_ciphersuites p3 = Some ((ns, suites), p4)"
       "read_public_name p5 = Some ((pnlen, pn), p6)"
       "nsuites ec' = ns" "ciphersuites ec' = suites"
       "public_name_len ec' = pnlen" "public_name ec' = pn"
    by (auto simp: ech_draft10_body_def split: option.splits prod.splits)
  show ?thesis
    using read_ciphersuites_Some [OF s(1)] read_public_name_Some [OF s(2)] s(3-6)
    by (simp add: suites_ok_def public_name_ok_def)
qed

lemma ech_draft09_body_fields:
  assumes "ech_draft09_body ec p = Some (ec', p')"
  shows "suites_ok ec' \<and> public_name_ok ec'"
proof -
  from assms obtain ns suites p3 p4 pnlen pn p6 where
    s: "read_ciphersuites p3 = Some ((ns, suites), p4)"
       "read_public_name p = Some ((pnlen, pn), p6)"
       "nsuites ec' = ns" "ciphersuites ec' = suites"
       "public_name_len ec' = pnlen" "public_name ec' = pn"
    by (auto simp: ech_draft09_body_def split: option.splits prod.splits)
  show ?thesis
    using read_ciphersuites_Some [OF s(1)] read_public_name_Some [OF s(2)] s(3-6)
    by (simp add: suites_ok_def public_name_ok_def)
qed

lemma echconfig_loop_body_fields:
  assumes "echconfig_loop_body binblen olen p = Some (Some ec, p')"
  shows "suites_ok ec \<and> public_name_ok ec"
  using assms
  by (auto simp: echconfig_loop_body_def Let_def split: option.splits if_splits
      dest!: ech_draft10_body_fields ech_draft09_body_fields)

lemma echconfigs_loop_all:
  "echconfigs_loop binblen olen ntc p te = Some (te', p') \<Longrightarrow>
   (\<And>q ec q'. echconfig_loop_body binblen olen q = Some (Some ec, q') \<Longrightarrow> P ec) \<Longrightarrow>
   list_all P te \<Longrightarrow> list_all P te'"
proof (induction binblen olen ntc p te rule: echconfigs_loop.induct)
  case (1 binblen olen ntc pkt te)
  show ?case
  proof (cases "PACKET_remaining pkt > ntc")
    case False
    with "1.prems" show ?thesis by (simp add: echconfigs_loop.simps [of _ _ _ pkt])
  next
    case True
    show ?thesis
    proof (cases "echconfig_loop_body binblen olen pkt")
      case None
      with True "1.prems" show ?thesis by (simp add: echconfigs_loop.simps [of _ _ _ pkt])
    next
      case (Some x)
      obtain r q where x: "x = (r, q)" by (cases x)
      show ?thesis
      proof (cases r)
        case None
        have "echconfigs_loop binblen olen ntc q te = Some (te', p')"
          using "1.prems"(1) True Some x None by (simp add: echconfigs_loop.simps [of _ _ _ pkt])
        from "1.IH"(1) [OF True Some x [symmetric] None this "1.prems"(2) "1.prems"(3)]
        show ?thesis .
      next
        case (Some ec)
        have b: "echconfig_loop_body binblen olen pkt = Some (Some ec, q)"
          using \<open>echconfig_loop_body binblen olen pkt = Some x\<close> x Some by simp
        have run: "echconfigs_loop binblen olen ntc q (te @ [ec]) = Some (te', p')"
          using "1.prems"(1) True b by (simp add: echconfigs_loop.simps [of _ _ _ pkt])
        have "list_all P (te @ [ec])" using "1.prems"(3) "1.prems"(2) [OF b] by simp
        from "1.IH"(2) [OF True \<open>echconfig_loop_body binblen olen pkt = Some x\<close> x [symmetric]
            Some run "1.prems"(2) this]
        show ?thesis .
      qed
    qed
  qed
qed

lemma echconfigs_loop_tail:
  "echconfigs_loop binblen olen ntc p te = Some (te', p') \<Longrightarrow>
   (\<exists>n. p' = drop n p \<and> n \<le> length p) \<and> length p' \<le> ntc"
proof (induction binblen olen ntc p te rule: echconfigs_loop.induct)
  case (1 binblen olen ntc pkt te)
  show ?case
  proof (cases "PACKET_remaining pkt > ntc")
    case False
    with "1.prems" have "p' = pkt" by (simp add: echconfigs_loop.simps [of _ _ _ pkt])
    then show ?thesis using False by (auto simp: PACKET_remaining_def intro: exI [of _ 0])
  next
    case True
    show ?thesis
    proof (cases "echconfig_loop_body binblen olen pkt")
      case None
      with True "1.prems" show ?thesis by (simp add: echconfigs_loop.simps [of _ _ _ pkt])
    next
      case (Some x)
      obtain r q where x: "x = (r, q)" by (cases x)
      have b: "echconfig_loop_body binblen olen pkt = Some (r, q)" using Some x by simp
      from echconfig_loop_body_tail [OF b]
      obtain n where n: "q = drop n pkt \<and> n \<le> length pkt" by blast
      have "(\<exists>m. p' = drop m q \<and> m \<le> length q) \<and> length p' \<le> ntc"
      proof (cases r)
        case None
        have "echconfigs_loop binblen olen ntc q te = Some (te', p')"
          using "1.prems"(1) True b None by (simp add: echconfigs_loop.simps [of _ _ _ pkt])
        from "1.IH"(1) [OF True Some x [symmetric] None this] show ?thesis .
      next
        case (Some ec)
        have "echconfigs_loop binblen olen ntc q (te @ [ec]) = Some (te', p')"
          using "1.prems"(1) True b Some by (simp add: echconfigs_loop.simps [of _ _ _ pkt])
        from "1.IH"(2) [OF True \<open>echconfig_loop_body binblen olen pkt = Some x\<close> x [symmetric]
            Some this]
        show ?thesis .
      qed
      then obtain m where m: "p' = drop m q \<and> m \<le> length q" and l: "length p' \<le> ntc"
        by blast
      from drop_tail_trans [OF n m] l show ?thesis by blast
    qed
  qed
qed

lemma ECHConfigs_from_binary_recs:
  assumes "ECHConfigs_from_binary binbuf = Some (er, l)"
  shows "list_all suites_ok (recs er) \<and> list_all public_name_ok (recs er)"
proof -
  from assms obtain olen pkt te p' where
    run: "echconfigs_loop (length binbuf) olen (length binbuf - olen) pkt [] = Some (te, p')"
    and er: "recs er = te"
    by (auto simp: ECHConfigs_from_binary_def ECHConfigs_from_binary_pkt_def Let_def
        split: option.splits if_splits prod.splits)
  have a: "list_all suites_ok te"
    by (rule echconfigs_loop_all [where P = suites_ok, OF run])
       (auto dest: echconfig_loop_body_fields)
  have b: "list_all public_name_ok te"
    by (rule echconfigs_loop_all [where P = public_name_ok, OF run])
       (auto dest: echconfig_loop_body_fields)
  show ?thesis using a b er by simp
qed

subsection \<open>The draft bodies on a given encoding\<close>

lemma copy_bytes_1: "PACKET_copy_bytes (c # xs) 1 = Some ([c], xs)"
  by (simp add: PACKET_copy_bytes_def PACKET_remaining_def)

lemma case_if_Some:
  "(case (if c then Some x else None) of None \<Rightarrow> None | Some y \<Rightarrow> f y) = (if c then f x else None)"
  by simp

lemma ech_draft10_body_wire:
  assumes "kem < 65536" "mnl < 65536" "length pubv < 65536" "length ss < 65536"
    "length pn < 65536"
  shows "ech_draft10_body ec (draft10_wire cid kem pubv ss mnl pn rest) =
     (if 0 < length pubv \<and> 0 < length ss \<and> length ss mod 4 = 0 \<and> 1 < length pn
          \<and> length pn \<le> TLSEXT_MAXLEN_host_name
      then (case read_extensions rest of
              None \<Rightarrow> None
            | Some ((n, ts, ls, vs), p7) \<Rightarrow>
                Some (ec\<lparr>config_id := cid, kem_id := kem, pub_len := length pubv, pub := pubv,
                   nsuites := length ss div 4, ciphersuites := suites_of ss,
                   maximum_name_length := mnl,
                   public_name_len := length pn, public_name := pn @ [0],
                   nexts := n, exttypes := ts, extlens := ls, exts := vs\<rparr>, p7))
      else None)"
proof -
  have "ech_draft10_body ec (draft10_wire cid kem pubv ss mnl pn rest) =
     (if 0 < length pubv then
        (if 0 < length ss \<and> length ss mod 4 = 0 then
           (if 1 < length pn \<and> length pn \<le> TLSEXT_MAXLEN_host_name then
              (case read_extensions rest of
                 None \<Rightarrow> None
               | Some ((n, ts, ls, vs), p7) \<Rightarrow>
                   Some (ec\<lparr>config_id := hd [cid], kem_id := kem, pub_len := length pubv,
                      pub := pubv, nsuites := length ss div 4, ciphersuites := suites_of ss,
                      maximum_name_length := mnl,
                      public_name_len := length pn, public_name := pn @ [0],
                      nexts := n, exttypes := ts, extlens := ls, exts := vs\<rparr>, p7))
            else None)
         else None)
      else None)"
    unfolding ech_draft10_body_def draft10_wire_def
    by (simp only: append.simps copy_bytes_1 get_net_2_u16 [OF assms(1)]
        get_net_2_u16 [OF assms(2)] read_pub_wire [OF assms(3)]
        read_ciphersuites_wire [OF assms(4)] read_public_name_wire [OF assms(5)]
        case_if_Some option.case prod.case)
  then show ?thesis by (simp split: option.splits)
qed

lemma ech_draft09_body_wire:
  assumes "kem < 65536" "mnl < 65536" "length pubv < 65536" "length ss < 65536"
    "length pn < 65536"
  shows "ech_draft09_body ec (draft09_wire pn pubv kem ss mnl rest) =
     (if 0 < length pubv \<and> 0 < length ss \<and> length ss mod 4 = 0 \<and> 1 < length pn
          \<and> length pn \<le> TLSEXT_MAXLEN_host_name
      then (case read_extensions rest of
              None \<Rightarrow> None
            | Some ((n, ts, ls, vs), p7) \<Rightarrow>
                Some (ec\<lparr>public_name_len := length pn, public_name := pn @ [0],
                   pub_len := length pubv, pub := pubv, kem_id := kem,
                   nsuites := length ss div 4, ciphersuites := suites_of ss,
                   maximum_name_length := mnl,
                   nexts := n, exttypes := ts, extlens := ls, exts := vs\<rparr>, p7))
      else None)"
proof -
  have "ech_draft09_body ec (draft09_wire pn pubv kem ss mnl rest) =
     (if 1 < length pn \<and> length pn \<le> TLSEXT_MAXLEN_host_name then
        (if 0 < length pubv then
           (if 0 < length ss \<and> length ss mod 4 = 0 then
              (case read_extensions rest of
                 None \<Rightarrow> None
               | Some ((n, ts, ls, vs), p7) \<Rightarrow>
                   Some (ec\<lparr>public_name_len := length pn, public_name := pn @ [0],
                      pub_len := length pubv, pub := pubv, kem_id := kem,
                      nsuites := length ss div 4, ciphersuites := suites_of ss,
                      maximum_name_length := mnl,
                      nexts := n, exttypes := ts, extlens := ls, exts := vs\<rparr>, p7))
            else None)
         else None)
      else None)"
    unfolding ech_draft09_body_def draft09_wire_def
    by (simp only: append_assoc get_net_2_u16 [OF assms(1)]
        get_net_2_u16 [OF assms(2)] read_pub_wire [OF assms(3)]
        read_ciphersuites_wire [OF assms(4)] read_public_name_wire [OF assms(5)]
        case_if_Some option.case prod.case)
  then show ?thesis by (simp split: option.splits)
qed

lemma echconfig_loop_body_wire_None:
  assumes "clen < 65536"
    and "ech_draft10_body (ECHConfig_zero\<lparr>encoding_length := olen,
            encoding_start := binblen - PACKET_remaining (config_wire ECH_DRAFT_10_VERSION clen body),
            version := ECH_DRAFT_10_VERSION\<rparr>) body = None"
  shows "echconfig_loop_body binblen olen (config_wire ECH_DRAFT_10_VERSION clen body) = None"
  using assms
  by (simp add: echconfig_loop_body_def config_wire_def get_net_2_u16 ECH_DRAFT_10_VERSION_def
      ECH_DRAFT_09_VERSION_def Let_def)

lemma echconfig_loop_body_wire09_None:
  assumes "clen < 65536"
    and "ech_draft09_body (ECHConfig_zero\<lparr>encoding_length := olen,
            encoding_start := binblen - PACKET_remaining (config_wire ECH_DRAFT_09_VERSION clen body),
            version := ECH_DRAFT_09_VERSION\<rparr>) body = None"
  shows "echconfig_loop_body binblen olen (config_wire ECH_DRAFT_09_VERSION clen body) = None"
  using assms
  by (simp add: echconfig_loop_body_def config_wire_def get_net_2_u16 ECH_DRAFT_10_VERSION_def
      ECH_DRAFT_09_VERSION_def Let_def)

lemma first_config_fails:
  assumes "olen < 65536"
    and "echconfig_loop_body (length (list_wire olen p)) olen p = None"
  shows "ECHConfigs_from_binary (list_wire olen p) = None"
proof -
  have g: "PACKET_get_net_2 (list_wire olen p) = Some (olen, p)"
    using assms(1) by (simp add: list_wire_def get_net_2_u16)
  have l: "length (list_wire olen p) = 2 + length p" by (simp add: list_wire_def)
  have "ECH_MIN_ECHCONFIG_LEN \<le> olen \<Longrightarrow> olen < length (list_wire olen p) \<Longrightarrow>
      echconfigs_loop (length (list_wire olen p)) olen (length (list_wire olen p) - olen) p [] = None"
    using assms(2) l
    by (simp add: echconfigs_loop.simps [of _ _ _ p] PACKET_remaining_def
        ECH_MIN_ECHCONFIG_LEN_def)
  then show ?thesis
    using g
    by (auto simp: ECHConfigs_from_binary_def ECHConfigs_from_binary_pkt_def Let_def
        split: option.splits)
qed

subsection \<open>The ciphersuites list\<close>

text \<open>
  Claim C6. For a ciphersuites payload \<open>ss\<close> (of \<open>suiteoctets = length ss\<close> octets) in either
  draft body: when the payload is empty or its length is not a multiple of 4, the reader fails
  and so does the decoding of a list whose first config carries it; otherwise the reader yields
  exactly \<open>suiteoctets/4\<close> suites, the payload cut into 4-octet entries; a body that decodes
  has \<^verbatim>\<open>nsuites\<close> = \<open>suiteoctets/4\<close>; and every config of every decoded list holds a non-empty
  list of \<^verbatim>\<open>nsuites\<close> 4-octet suites. (The first guard, \<^verbatim>\<open>suiteoctets % 1\<close>, never
  fires; the check after the copying loop rejects what is left over.)
\<close>

theorem ciphersuites_octets_multiple_of_4:
  assumes "kem < 65536" "mnl < 65536" "length pubv < 65536" "length ss < 65536"
    "length pn < 65536" "olen < 65536" "clen < 65536"
  shows "(length ss = 0 \<or> length ss mod 4 \<noteq> 0 \<longrightarrow>
            read_ciphersuites (u16_bytes (length ss) @ ss @ rest) = None
          \<and> ECHConfigs_from_binary (list_wire olen (config_wire ECH_DRAFT_10_VERSION clen
                (draft10_wire cid kem pubv ss mnl pn rest))) = None
          \<and> ECHConfigs_from_binary (list_wire olen (config_wire ECH_DRAFT_09_VERSION clen
                (draft09_wire pn pubv kem ss mnl rest))) = None)
       \<and> (0 < length ss \<and> length ss mod 4 = 0 \<longrightarrow>
            read_ciphersuites (u16_bytes (length ss) @ ss @ rest)
              = Some ((length ss div 4, suites_of ss), rest))
       \<and> (\<forall>ec' p'. ech_draft10_body ec (draft10_wire cid kem pubv ss mnl pn rest) = Some (ec', p')
            \<longrightarrow> nsuites ec' = length ss div 4 \<and> ciphersuites ec' = suites_of ss)
       \<and> (\<forall>ec' p'. ech_draft09_body ec (draft09_wire pn pubv kem ss mnl rest) = Some (ec', p')
            \<longrightarrow> nsuites ec' = length ss div 4 \<and> ciphersuites ec' = suites_of ss)
       \<and> (\<forall>er l. ECHConfigs_from_binary binbuf = Some (er, l) \<longrightarrow> list_all suites_ok (recs er))"
proof -
  note sz = assms(1-5)
  have bad: "ECHConfigs_from_binary (list_wire olen (config_wire ECH_DRAFT_10_VERSION clen
                (draft10_wire cid kem pubv ss mnl pn rest))) = None
          \<and> ECHConfigs_from_binary (list_wire olen (config_wire ECH_DRAFT_09_VERSION clen
                (draft09_wire pn pubv kem ss mnl rest))) = None"
    if b: "length ss = 0 \<or> length ss mod 4 \<noteq> 0"
  proof
    show "ECHConfigs_from_binary (list_wire olen (config_wire ECH_DRAFT_10_VERSION clen
                (draft10_wire cid kem pubv ss mnl pn rest))) = None"
      by (rule first_config_fails [OF assms(6)], rule echconfig_loop_body_wire_None [OF assms(7)])
         (use b in \<open>auto simp: ech_draft10_body_wire [OF sz]\<close>)
    show "ECHConfigs_from_binary (list_wire olen (config_wire ECH_DRAFT_09_VERSION clen
                (draft09_wire pn pubv kem ss mnl rest))) = None"
      by (rule first_config_fails [OF assms(6)], rule echconfig_loop_body_wire09_None [OF assms(7)])
         (use b in \<open>auto simp: ech_draft09_body_wire [OF sz]\<close>)
  qed
  have d10: "nsuites ec' = length ss div 4 \<and> ciphersuites ec' = suites_of ss"
    if "ech_draft10_body ec (draft10_wire cid kem pubv ss mnl pn rest) = Some (ec', p')"
    for ec' p'
    using that by (auto simp: ech_draft10_body_wire [OF sz] split: if_splits option.splits)
  have d09: "nsuites ec' = length ss div 4 \<and> ciphersuites ec' = suites_of ss"
    if "ech_draft09_body ec (draft09_wire pn pubv kem ss mnl rest) = Some (ec', p')"
    for ec' p'
    using that by (auto simp: ech_draft09_body_wire [OF sz] split: if_splits option.splits)
  have whole: "list_all suites_ok (recs er)"
    if "ECHConfigs_from_binary binbuf = Some (er, l)" for er l
    using ECHConfigs_from_binary_recs [OF that] by simp
  show ?thesis
    using bad d10 d09 whole read_ciphersuites_wire [OF assms(4), of rest] by auto
qed

text \<open>
  The theorem at the sample config: a payload of 6 octets is rejected, alone and inside a list;
  a payload of 4 octets gives one suite.
\<close>

lemma sample_sizes:
  "(0x20::nat) < 65536" "(64::nat) < 65536" "length (replicate 32 (0xAB::byte)) < 65536"
  "length example_com < 65536" "(60::nat) < 65536"
  by (simp_all add: example_com_def)

theorem ciphersuites_octets_multiple_of_4_witness:
  "read_ciphersuites (u16_bytes (length [0, 1, 0, 1, 0, 2 :: byte]) @ [0, 1, 0, 1, 0, 2] @ [0, 0]) = None
   \<and> ECHConfigs_from_binary (list_wire 66 (config_wire ECH_DRAFT_10_VERSION 62
         (sample_body [0, 1, 0, 1, 0, 2] example_com))) = None
   \<and> read_ciphersuites (u16_bytes (length [0, 1, 0, 1 :: byte]) @ [0, 1, 0, 1] @ [0, 0])
       = Some ((1, [[0, 1, 0, 1]]), [0, 0])"
proof -
  have a: "length [0, 1, 0, 1, 0, 2 :: byte] < 65536" "(66::nat) < 65536" "(62::nat) < 65536"
    by simp_all
  have b: "length [0, 1, 0, 1 :: byte] < 65536" by simp
  have c: "length [0, 1, 0, 1, 0, 2 :: byte] = 0 \<or> length [0, 1, 0, 1, 0, 2 :: byte] mod 4 \<noteq> 0"
    "0 < length [0, 1, 0, 1 :: byte] \<and> length [0, 1, 0, 1 :: byte] mod 4 = 0"
    by simp_all
  have s: "suites_of [0, 1, 0, 1 :: byte] = [[0, 1, 0, 1]]"
    by (simp add: suites_of.simps)
  from ciphersuites_octets_multiple_of_4 [OF sample_sizes(1,2,3) a(1) sample_sizes(4) a(2,3),
      where rest = "[0, 0]" and cid = "0x2a" and ec = ECHConfig_zero and binbuf = "[]"]
    ciphersuites_octets_multiple_of_4 [OF sample_sizes(1,2,3) b sample_sizes(4) a(2,3),
      where rest = "[0, 0]" and cid = "0x2a" and ec = ECHConfig_zero and binbuf = "[]"]
    c s
  show ?thesis
    unfolding sample_body_def by simp
qed

subsection \<open>The public name\<close>



subsection \<open>Lengths, coverage and the leftover\<close>

text \<open>Unfolding the decoder on a concrete input.\<close>

lemmas decode_eval = ECHConfigs_from_binary_def ECHConfigs_from_binary_pkt_def
  echconfigs_loop.simps echconfig_loop_body_def ech_draft10_body_def ech_draft09_body_def
  read_extensions_def exts_loop.simps read_pub_def read_public_name_def read_ciphersuites_def
  copy_suites.simps PACKET_get_length_prefixed_2_def PACKET_copy_bytes_def PACKET_get_net_2_def
  PACKET_remaining_def ECH_MIN_ECHCONFIG_LEN_def ECH_MAX_ECHCONFIG_LEN_def
  ECH_MAX_ECHCONFIGEXT_LEN_def ECH_CIPHER_LEN_def TLSEXT_MAXLEN_host_name_def
  ECH_DRAFT_09_VERSION_def ECH_DRAFT_10_VERSION_def ECHConfig_zero_def Let_def
  list_wire_def config_wire_def draft10_wire_def u16_bytes_def sample_config_def
  sample_body_def example_com_def total_length_def small_config_def OPENSSL_malloc_fails_def

text \<open>
  Claim C7, as the code has it. When \<^verbatim>\<open>ECHConfigs_from_binary\<close> succeeds, the input holds at
  least \<^verbatim>\<open>ECH_MIN_ECHCONFIG_LEN\<close> (10) and fewer than \<^verbatim>\<open>ECH_MAX_ECHCONFIG_LEN\<close> (1500)
  octets, the declared \<^verbatim>\<open>total_length\<close> is at least \<^verbatim>\<open>ECH_MIN_ECHCONFIG_LEN\<close> and at most
  the input length less 2; decoding stopped with at most (input length - \<^verbatim>\<open>total_length\<close>)
  octets remaining; the octets not consumed are the tail of the input, \<^verbatim>\<open>*leftover\<close> is their
  number, and the \<^verbatim>\<open>ECHConfigs\<close> keeps the whole input as its encoding. Nothing requires the
  configs to end where the declared length ends.
\<close>

theorem ECHConfigs_from_binary_lengths:
  assumes "map_option snd (ECHConfigs_from_binary_pkt binbuf) = Some pkt'"
  shows "ECH_MIN_ECHCONFIG_LEN \<le> length binbuf \<and> length binbuf < ECH_MAX_ECHCONFIG_LEN
     \<and> ECH_MIN_ECHCONFIG_LEN \<le> total_length binbuf
     \<and> total_length binbuf \<le> length binbuf - 2
     \<and> length pkt' \<le> length binbuf - total_length binbuf
     \<and> pkt' = drop (length binbuf - length pkt') binbuf
     \<and> map_option snd (ECHConfigs_from_binary binbuf) = Some (length pkt')
     \<and> map_option (encoded \<circ> fst) (ECHConfigs_from_binary binbuf) = Some binbuf"
proof -
  from assms obtain er where r: "ECHConfigs_from_binary_pkt binbuf = Some (er, pkt')"
    by (cases "ECHConfigs_from_binary_pkt binbuf") auto
  from r obtain olen pkt te where
    g: "PACKET_get_net_2 binbuf = Some (olen, pkt)"
    and c: "ECH_MIN_ECHCONFIG_LEN \<le> length binbuf" "length binbuf < ECH_MAX_ECHCONFIG_LEN"
       "ECH_MIN_ECHCONFIG_LEN \<le> olen" "olen \<le> length binbuf - 2"
    and run: "echconfigs_loop (length binbuf) olen (length binbuf - olen) pkt [] = Some (te, pkt')"
    and er: "encoded er = binbuf"
    by (auto simp: ECHConfigs_from_binary_pkt_def Let_def split: option.splits if_splits)
  have t: "total_length binbuf = olen" using g by (simp add: total_length_def)
  from echconfigs_loop_tail [OF run] obtain n where
    n: "pkt' = drop n pkt" "n \<le> length pkt" and l: "length pkt' \<le> length binbuf - olen"
    by blast
  from PACKET_get_net_2_tail [OF g] have p: "pkt = drop 2 binbuf" "2 \<le> length binbuf" by simp_all
  have d: "pkt' = drop (length binbuf - length pkt') binbuf"
  proof -
    have "pkt' = drop (2 + n) binbuf" using n p by (simp add: add.commute)
    moreover have "length pkt' = length binbuf - (2 + n)" using n p by simp
    moreover have "2 + n \<le> length binbuf" using n p by simp
    ultimately show ?thesis by simp
  qed
  show ?thesis
    using c t l d r er by (simp add: ECHConfigs_from_binary_def PACKET_remaining_def)
qed

text \<open>The theorem at a list of one config (declared length 64) followed by two more octets.\<close>

theorem ECHConfigs_from_binary_lengths_witness:
  "map_option snd (ECHConfigs_from_binary_pkt (list_wire 64 sample_config @ [0xde, 0xad]))
      = Some [0xde, 0xad]
   \<and> total_length (list_wire 64 sample_config @ [0xde, 0xad]) = 64
   \<and> length (list_wire 64 sample_config @ [0xde, 0xad]) = 68
   \<and> map_option snd (ECHConfigs_from_binary (list_wire 64 sample_config @ [0xde, 0xad])) = Some 2"
proof -
  have h: "map_option snd (ECHConfigs_from_binary_pkt (list_wire 64 sample_config @ [0xde, 0xad]))
      = Some [0xde, 0xad]"
    by (simp add: decode_eval)
  have t: "total_length (list_wire 64 sample_config @ [0xde, 0xad]) = 64"
    "length (list_wire 64 sample_config @ [0xde, 0xad]) = 68"
    by (simp_all add: decode_eval)
  have len: "length [0xde, 0xad :: byte] = 2" by simp
  from ECHConfigs_from_binary_lengths [OF h]
  have x: "map_option snd (ECHConfigs_from_binary (list_wire 64 sample_config @ [0xde, 0xad]))
      = Some (length [0xde, 0xad :: byte])"
    by blast
  show ?thesis using h t x unfolding len by blast
qed

text \<open>
  Claim C7 as the specification words it fails: a list that declares 40 octets and holds one
  config of 64 octets decodes, so a config that overruns the declared length does not fail the
  decode; and a list that declares 66 octets and holds one config of 64 octets followed by two
  octets of garbage decodes too, the garbage counted as leftover.
\<close>

theorem config_overrun_accepted_counterexample:
  "total_length (list_wire 40 sample_config) = 40
   \<and> length sample_config = 64
   \<and> decoded_count (list_wire 40 sample_config) = Some (1, 0)
   \<and> total_length (list_wire 66 (sample_config @ [0xde, 0xad])) = 66
   \<and> decoded_count (list_wire 66 (sample_config @ [0xde, 0xad])) = Some (1, 2)"
proof -
  have a: "total_length (list_wire 40 sample_config) = 40 \<and> length sample_config = 64
     \<and> total_length (list_wire 66 (sample_config @ [0xde, 0xad])) = 66"
    by (simp add: decode_eval)
  have b: "decoded_count (list_wire 40 sample_config) = Some (1, 0)"
    by (simp add: decoded_count_def decode_eval)
  have c: "decoded_count (list_wire 66 (sample_config @ [0xde, 0xad])) = Some (1, 2)"
    by (simp add: decoded_count_def decode_eval)
  show ?thesis using a b c by simp
qed

subsection \<open>The encoding window and the HPKE info\<close>

text \<open>Every decoded config has \<^verbatim>\<open>encoding_length\<close> equal to the list's declared length.\<close>

lemma ech_draft10_body_window:
  assumes "ech_draft10_body ec p = Some (ec', p')"
  shows "encoding_length ec' = encoding_length ec \<and> encoding_start ec' = encoding_start ec"
  using assms by (auto simp: ech_draft10_body_def split: option.splits prod.splits)

lemma ech_draft09_body_window:
  assumes "ech_draft09_body ec p = Some (ec', p')"
  shows "encoding_length ec' = encoding_length ec \<and> encoding_start ec' = encoding_start ec"
  using assms by (auto simp: ech_draft09_body_def split: option.splits prod.splits)

lemma echconfig_loop_body_window:
  assumes "echconfig_loop_body binblen olen q = Some (Some ec, q')"
  shows "encoding_length ec = olen \<and> encoding_start ec = binblen - length q"
  using assms
  by (auto simp: echconfig_loop_body_def Let_def PACKET_remaining_def
      split: option.splits if_splits
      dest!: ech_draft10_body_window ech_draft09_body_window)

lemma decoded_encoding_length:
  assumes "ECHConfigs_from_binary binbuf = Some (er, l)"
  shows "list_all (\<lambda>ec. encoding_length ec = total_length binbuf) (recs er)"
proof -
  from assms obtain olen pkt te p' where
    g: "PACKET_get_net_2 binbuf = Some (olen, pkt)"
    and run: "echconfigs_loop (length binbuf) olen (length binbuf - olen) pkt [] = Some (te, p')"
    and er: "recs er = te"
    by (auto simp: ECHConfigs_from_binary_def ECHConfigs_from_binary_pkt_def Let_def
        split: option.splits if_splits prod.splits)
  have "list_all (\<lambda>ec. encoding_length ec = olen) te"
    by (rule echconfigs_loop_all [OF run]) (auto dest: echconfig_loop_body_window)
  then show ?thesis using g er by (simp add: total_length_def)
qed

text \<open>
  Claim C4 at a list of two configs of 24 octets each (content length 20): both configs get
  \<^verbatim>\<open>encoding_length\<close> 48, the declared length of the list, not 24; the info built for the
  first config carries both configs, and for the second the copy runs past the end of the
  buffer.
\<close>

theorem encoding_length_is_list_length:
  "decoded_windows two_config_list = Some [(2, 48), (26, 48)]
   \<and> length small_config = 20 + 4
   \<and> decoded_infos two_config_list 4096
       = Some [Inr (ECH_CONTEXT_STRING @ [0] @ small_config @ small_config), Inl Out_of_bounds]"
proof -
  have a: "decoded_windows two_config_list = Some [(2, 48), (26, 48)]"
    by (simp add: decoded_windows_def two_config_list_def decode_eval)
  have b: "length small_config = 20 + 4"
    by (simp add: decode_eval)
  have c: "decoded_infos two_config_list 4096
       = Some [Inr (ECH_CONTEXT_STRING @ [0] @ small_config @ small_config), Inl Out_of_bounds]"
    by (simp add: decoded_infos_def two_config_list_def ech_make_enc_info_def
        ECH_CONTEXT_STRING_def decode_eval)
  show ?thesis using a b c by simp
qed

section \<open>Properties: the add operations and the caller's buffer\<close>








lemma strcspn_le_strlen: "strcspn_at buf off sepstr \<le> strlen_at buf off"
proof -
  have "length (takeWhile (\<lambda>c::byte. c \<noteq> 0 \<and> c \<notin> set sepstr) (drop off buf))
      \<le> length (takeWhile (\<lambda>c. c \<noteq> 0) (drop off buf))"
  proof (induction "drop off buf" arbitrary: off buf)
    case Nil
    then show ?case by simp
  next
    case (Cons a x)
    from Cons(2) have "x = drop (Suc off) buf" by (metis drop_Suc list.sel(3) tl_drop)
    from Cons(1) [OF this] Cons(2) [symmetric] this show ?case by simp
  qed
  then show ?thesis by (simp add: strcspn_at_def strlen_at_def)
qed








section \<open>Key selection on the server\<close>

text \<open>
  An attempt that does not read outside the store is made on a key that holds a config, whose
  \<^verbatim>\<open>config_id\<close> is then the one compared.
\<close>

lemma key_config_id_of_decrypt:
  "early_hpke_decrypt_encch hpke_dec errp k extval aad \<noteq> Inl Out_of_bounds
   \<Longrightarrow> \<exists>c e es. cfg k = Some c \<and> recs c = e # es \<and> key_config_id k = Some (config_id e)"
  by (auto simp: early_hpke_decrypt_encch_def key_config_id_def split: option.splits list.splits)

text \<open>
  The stored keys below a bound \<open>n\<close> that does not exceed their number.
\<close>

lemma drop_take_nth:
  "i < n \<Longrightarrow> n \<le> length keys \<Longrightarrow>
   drop i (take n keys) = keys ! i # drop (Suc i) (take n keys)"
  using Cons_nth_drop_Suc[of i "take n keys"] by simp

lemma nth_in_take: "i < n \<Longrightarrow> n \<le> length keys \<Longrightarrow> keys ! i \<in> set (take n keys)"
  using nth_mem[of i "take n keys"] by simp

text \<open>
  For any bound \<open>n\<close> within the store, the search stops at the first of the \<open>n\<close> first
  stored keys with the received \<^verbatim>\<open>config_id\<close>, and trial decryption stops at the first of
  them that opens the extension. Stored keys from index \<open>n\<close> on are never looked at.
\<close>

lemma find_cfg_spec:
  "(\<forall>k\<in>set (take n keys). \<exists>c e es. cfg k = Some c \<and> recs c = e # es \<and> key_config_id k = Some (config_id e)) \<Longrightarrow>
     i \<le> n \<Longrightarrow> n \<le> length keys \<Longrightarrow>
     find_cfg keys cid n i =
       (let m = i + length (takeWhile (\<lambda>k. key_config_id k \<noteq> Some cid) (drop i (take n keys)))
        in Inr (m, m < n))"
proof (induction keys cid n i rule: find_cfg.induct)
  case (1 keys cid n cfgind)
  show ?case
  proof (cases "cfgind < n")
    case False
    with 1(3) have "cfgind = n" by simp
    then show ?thesis using 1(4) by (subst find_cfg.simps) simp
  next
    case True
    then have il: "cfgind < length keys" using 1(4) by simp
    have mem: "keys ! cfgind \<in> set (take n keys)" using nth_in_take[OF True 1(4)] .
    from 1(2) mem obtain c e es where
      k: "cfg (keys ! cfgind) = Some c" "recs c = e # es"
         "key_config_id (keys ! cfgind) = Some (config_id e)" by blast
    have dr: "drop cfgind (take n keys) = keys ! cfgind # drop (Suc cfgind) (take n keys)"
      using drop_take_nth[OF True 1(4)] .
    have nl: "\<not> length keys \<le> cfgind" using il by simp
    show ?thesis
    proof (cases "cid = config_id e")
      case c: True
      then show ?thesis using True nl k dr
        by (subst find_cfg.simps) simp
    next
      case c: False
      have "find_cfg keys cid n (cfgind + 1) =
        (let m = (cfgind + 1) + length (takeWhile (\<lambda>k. key_config_id k \<noteq> Some cid)
                    (drop (cfgind + 1) (take n keys)))
         in Inr (m, m < n))"
        using 1(1)[OF True nl k(1) k(2) c 1(2) _ 1(4)] True by simp
      then show ?thesis using True nl k dr c
        by (subst find_cfg.simps) (simp add: Let_def)
    qed
  qed
qed

lemma trial_decrypt_spec:
  "(\<forall>k\<in>set (take n keys). decrypt k \<noteq> Inl Out_of_bounds) \<Longrightarrow>
     i \<le> n \<Longrightarrow> n \<le> length keys \<Longrightarrow>
     trial_decrypt decrypt keys n i tried =
       (let m = i + length (takeWhile (\<lambda>k. opened (decrypt k) = None) (drop i (take n keys)))
        in Inr (if m < n then opened (decrypt (keys ! m)) else None,
                tried @ [i ..< min (Suc m) n]))"
proof (induction decrypt keys n i tried rule: trial_decrypt.induct)
  case (1 decrypt keys n cfgind tried)
  show ?case
  proof (cases "cfgind < n")
    case False
    with 1(3) have "cfgind = n" by simp
    then show ?thesis using 1(4) by (subst trial_decrypt.simps) simp
  next
    case True
    then have il: "cfgind < length keys" using 1(4) by simp
    have nl: "\<not> length keys \<le> cfgind" using il by simp
    have mem: "keys ! cfgind \<in> set (take n keys)" using nth_in_take[OF True 1(4)] .
    with 1(2) have noob: "decrypt (keys ! cfgind) \<noteq> Inl Out_of_bounds" by blast
    have dr: "drop cfgind (take n keys) = keys ! cfgind # drop (Suc cfgind) (take n keys)"
      using drop_take_nth[OF True 1(4)] .
    show ?thesis
    proof (cases "decrypt (keys ! cfgind)")
      case (Inr clear)
      then show ?thesis using True nl dr
        by (subst trial_decrypt.simps) (simp add: opened_def)
    next
      case (Inl e)
      with noob have e: "e = Err" by (cases e) auto
      have ih: "trial_decrypt decrypt keys n (cfgind + 1) (tried @ [cfgind]) =
        (let m = (cfgind + 1) + length (takeWhile (\<lambda>k. opened (decrypt k) = None)
                    (drop (cfgind + 1) (take n keys)))
         in Inr (if m < n then opened (decrypt (keys ! m)) else None,
                (tried @ [cfgind]) @ [cfgind + 1 ..< min (Suc m) n]))"
        using 1(1)[OF True nl Inl e 1(2) _ 1(4)] True by simp
      have up: "\<And>m. cfgind < m \<Longrightarrow> [cfgind ..< m] = cfgind # [cfgind + 1 ..< m]"
        by (simp add: upt_conv_Cons)
      show ?thesis using True nl dr Inl e ih
        by (subst trial_decrypt.simps) (simp add: opened_def Let_def up)
    qed
  qed
qed

text \<open>
  Claim C2, as the code has it, for every store and every bound of the loops that stays within
  the store: \<^verbatim>\<open>ech_early_decrypt\<close> always gets through key selection, and what it does is
  decided by the examined keys alone, the stored keys below \<^verbatim>\<open>s->ech->cfg->nrecs\<close>. When an
  examined key has the received \<^verbatim>\<open>config_id\<close>, the first such key is tried and no other,
  with trial decryption enabled or not; when none has it and trial decryption is enabled, the
  examined keys are tried in order up to the first that opens the extension; when none has it
  and trial decryption is disabled, no key is tried. Whenever there is no plaintext at the
  end, the session is marked grease, the function returns 1 and no alert is raised; otherwise
  the session is marked not grease and the function goes on. A stored key that is not examined
  takes no part: the store that the server loads holds one config per key, so the bound is 1
  and only the first stored key is examined, however many are stored.
\<close>

theorem key_selection_by_config_id:
  assumes pos: "0 < loop_bound keys"
    and le: "loop_bound keys \<le> length keys"
    and noob: "\<forall>k\<in>set (examined_keys keys).
        early_hpke_decrypt_encch hpke_dec err_pending k extval aad \<noteq> Inl Out_of_bounds"
  shows "\<exists>r. ech_early_decrypt_keys hpke_dec err_pending trial keys extval aad = Inr r \<and>
    (let decrypt = (\<lambda>k. early_hpke_decrypt_encch hpke_dec err_pending k extval aad);
         ks = examined_keys keys;
         m = first_with_id ks (ech_config_id extval);
         t = first_opening decrypt ks
     in er_tried r = (if m < length ks then [m]
                      else if trial then [0 ..< min (Suc t) (length ks)] else []) \<and>
        er_clear r = (if m < length ks then opened (decrypt (ks ! m))
                      else if trial \<and> t < length ks then opened (decrypt (ks ! t))
                      else None) \<and>
        (if er_clear r = None
         then er_return r = Some 1 \<and> \<not> er_alert r \<and> er_grease r = ECH_IS_GREASE \<and>
              er_done r \<and> \<not> er_success r
         else er_return r = None \<and> \<not> er_alert r \<and> er_grease r = ECH_NOT_GREASE \<and>
              er_done r \<and> er_success r))"
proof -
  define decrypt where "decrypt = (\<lambda>k. early_hpke_decrypt_encch hpke_dec err_pending k extval aad)"
  define n where "n = loop_bound keys"
  define ks where "ks = take n keys"
  define m where "m = first_with_id ks (ech_config_id extval)"
  define t where "t = first_opening decrypt ks"
  have ek: "examined_keys keys = ks" by (simp add: examined_keys_def ks_def n_def)
  have lks: "length ks = n" using le by (simp add: ks_def n_def)
  have nth: "\<And>j. j < n \<Longrightarrow> ks ! j = keys ! j" by (simp add: ks_def)
  from pos obtain k0 krest where keys: "keys = k0 # krest"
    by (cases keys) (auto simp: loop_bound_def)
  from pos obtain c0 where c0: "cfg k0 = Some c0" and n: "nrecs c0 = n"
    unfolding keys n_def by (auto simp: loop_bound_def split: option.splits)
  have n0: "nrecs c0 \<noteq> 0" using pos n n_def by simp
  have nle: "n \<le> length keys" using le n_def by simp
  have cfgs: "\<forall>k\<in>set (take n keys). \<exists>c e es. cfg k = Some c \<and> recs c = e # es \<and>
      key_config_id k = Some (config_id e)"
    using noob key_config_id_of_decrypt unfolding ek ks_def by blast
  have noob': "\<forall>k\<in>set (take n keys). decrypt k \<noteq> Inl Out_of_bounds"
    using noob unfolding decrypt_def ek ks_def .
  have f: "find_cfg keys (ech_config_id extval) (nrecs c0) 0 = Inr (m, m < n)"
    unfolding n using find_cfg_spec[OF cfgs _ nle, of 0 "ech_config_id extval"]
    by (simp add: m_def first_with_id_def Let_def ks_def)
  have tr: "trial_decrypt decrypt keys (nrecs c0) 0 [] =
      Inr (if t < n then opened (decrypt (keys ! t)) else None, [0 ..< min (Suc t) n])"
    unfolding n using trial_decrypt_spec[OF noob' _ nle, of 0 "[]"]
    by (simp add: t_def first_opening_def Let_def ks_def)
  have one: "m < n \<Longrightarrow>
      (case decrypt (keys ! m) of
         Inl Out_of_bounds \<Rightarrow> Inl Out_of_bounds
       | Inl Err \<Rightarrow> Inr (None, [m])
       | Inr clear \<Rightarrow> Inr (Some clear, [m])) = Inr (opened (decrypt (keys ! m)), [m])"
  proof -
    assume mn: "m < n"
    then have "keys ! m \<in> set (take n keys)"
      using nth[OF mn] nth_mem[of m ks] lks by (simp add: ks_def)
    then have "decrypt (keys ! m) \<noteq> Inl Out_of_bounds" using noob' by blast
    then show ?thesis
      by (cases "decrypt (keys ! m)") (auto simp: opened_def split: ech_error.splits)
  qed
  have kc: "\<And>a f. (case keys of [] \<Rightarrow> a | k # x \<Rightarrow> f k x) = f k0 krest"
    by (simp add: keys)
  have core: "\<exists>r. ech_early_decrypt_keys hpke_dec err_pending trial keys extval aad = Inr r \<and>
        er_tried r = (if m < n then [m]
                      else if trial then [0 ..< min (Suc t) n] else []) \<and>
        er_clear r = (if m < n then opened (decrypt (keys ! m))
                      else if trial \<and> t < n then opened (decrypt (keys ! t))
                      else None) \<and>
        (if er_clear r = None
         then er_return r = Some 1 \<and> \<not> er_alert r \<and> er_grease r = ECH_IS_GREASE \<and>
              er_done r \<and> \<not> er_success r
         else er_return r = None \<and> \<not> er_alert r \<and> er_grease r = ECH_NOT_GREASE \<and>
              er_done r \<and> er_success r)"
  proof (cases "m < n")
    case True
    have nl: "\<not> length keys \<le> m" using True nle by simp
    show ?thesis
      unfolding ech_early_decrypt_keys_def kc decrypt_def[symmetric]
      using True nl one[OF True] c0 n0 f
      by (cases "opened (decrypt (keys ! m))") (simp_all add: Let_def)
  next
    case False
    show ?thesis
    proof (cases trial)
      case True
      show ?thesis
        unfolding ech_early_decrypt_keys_def kc decrypt_def[symmetric]
        using False True c0 n0 f tr
        by (cases "opened (decrypt (keys ! t))") (simp_all add: Let_def)
    next
      case nt: False
      show ?thesis
        unfolding ech_early_decrypt_keys_def kc decrypt_def[symmetric]
        using False nt c0 n0 f
        by (simp add: Let_def)
    qed
  qed
  have mth: "m < n \<Longrightarrow> ks ! m = keys ! m" and tth: "t < n \<Longrightarrow> ks ! t = keys ! t"
    using nth by simp_all
  from core obtain r where r: "ech_early_decrypt_keys hpke_dec err_pending trial keys extval aad = Inr r"
      "er_tried r = (if m < n then [m] else if trial then [0 ..< min (Suc t) n] else [])"
      "er_clear r = (if m < n then opened (decrypt (keys ! m))
                      else if trial \<and> t < n then opened (decrypt (keys ! t)) else None)"
      "(if er_clear r = None
         then er_return r = Some 1 \<and> \<not> er_alert r \<and> er_grease r = ECH_IS_GREASE \<and>
              er_done r \<and> \<not> er_success r
         else er_return r = None \<and> \<not> er_alert r \<and> er_grease r = ECH_NOT_GREASE \<and>
              er_done r \<and> er_success r)" by blast
  have c2: "er_clear r = (if m < n then opened (decrypt (ks ! m))
                      else if trial \<and> t < n then opened (decrypt (ks ! t)) else None)"
    using r(3) mth tth by auto
  show ?thesis
    unfolding Let_def ek decrypt_def[symmetric] m_def[symmetric] t_def[symmetric] lks
    using r(1) r(2) c2 r(4) by blast
qed

text \<open>
Evaluation of the key selection on the sample stores.
\<close>

lemmas keys_eval = ech_early_decrypt_keys_def early_hpke_decrypt_encch_def find_cfg.simps
  trial_decrypt.simps key_with_id_def ech_with_id_def opens_with_key_2_def SSL_ECH_zero_def
  ECHConfig_zero_def ech_make_enc_info_def ECH_CONTEXT_STRING_def HPKE_MAXSIZE_def
  OPENSSL_malloc_fails_def every_key_tried_def Let_def

text \<open>
  Claim C2 on two stores of two keys, each key holding one config as loaded by the server. In
  the first store the second key has the received \<^verbatim>\<open>config_id\<close> and opens the extension,
  yet with trial decryption enabled only the first key is tried and the session is marked
  grease, with return value 1 and no alert. In the second store the first key has the received
  \<^verbatim>\<open>config_id\<close> and opens the extension.
\<close>

theorem key_selection_by_config_id_witness:
  "ech_early_decrypt_keys opens_with_key_2 False True
       [key_with_id 0x11 3, key_with_id 0x22 2] (ech_with_id 0x22) [] =
     Inr \<lparr>er_return = Some 1, er_alert = False, er_grease = ECH_IS_GREASE, er_done = True,
          er_success = False, er_clear = None, er_tried = [0]\<rparr>
   \<and> ech_early_decrypt_keys opens_with_key_2 False False
       [key_with_id 0x11 2, key_with_id 0x22 3] (ech_with_id 0x11) [] =
     Inr \<lparr>er_return = None, er_alert = False, er_grease = ECH_NOT_GREASE, er_done = True,
          er_success = True, er_clear = Some [0x2a], er_tried = [0]\<rparr>
   \<and> first_with_id [key_with_id 0x11 3, key_with_id 0x22 2] (ech_config_id (ech_with_id 0x22)) = 1
   \<and> early_hpke_decrypt_encch opens_with_key_2 False (key_with_id 0x22 2) (ech_with_id 0x22) []
       = Inr [0x2a]"
proof -
  let ?s1 = "[key_with_id 0x11 3, key_with_id 0x22 2]"
  let ?s2 = "[key_with_id 0x11 2, key_with_id 0x22 3]"
  have b1: "loop_bound ?s1 = 1" and b2: "loop_bound ?s2 = 1"
    by (simp_all add: loop_bound_def key_with_id_def)
  have e1: "examined_keys ?s1 = [key_with_id 0x11 3]"
    and e2: "examined_keys ?s2 = [key_with_id 0x11 2]"
    by (simp_all add: examined_keys_def b1 b2)
  have d1: "early_hpke_decrypt_encch opens_with_key_2 False (key_with_id 0x11 3) (ech_with_id 0x22) []
      = Inl Err"
    by (simp add: keys_eval)
  have d2: "early_hpke_decrypt_encch opens_with_key_2 False (key_with_id 0x11 2) (ech_with_id 0x11) []
      = Inr [0x2a]"
    by (simp add: keys_eval)
  have i1: "first_with_id [key_with_id 0x11 3] (ech_config_id (ech_with_id 0x22)) = 1"
    by (simp add: first_with_id_def key_config_id_def keys_eval)
  have i2: "first_with_id [key_with_id 0x11 2] (ech_config_id (ech_with_id 0x11)) = 0"
    by (simp add: first_with_id_def key_config_id_def keys_eval)
  have o1: "first_opening (\<lambda>k. early_hpke_decrypt_encch opens_with_key_2 False k (ech_with_id 0x22) [])
      [key_with_id 0x11 3] = 1"
    by (simp add: first_opening_def opened_def keys_eval)
  from key_selection_by_config_id[of ?s1 opens_with_key_2 False "ech_with_id 0x22" "[]" True] d1
  obtain r1 where r1: "ech_early_decrypt_keys opens_with_key_2 False True ?s1
        (ech_with_id 0x22) [] = Inr r1"
      "er_tried r1 = [0]" "er_clear r1 = None" "er_return r1 = Some 1" "\<not> er_alert r1"
      "er_grease r1 = ECH_IS_GREASE" "er_done r1" "\<not> er_success r1"
    by (auto simp: Let_def b1 e1 i1 o1 opened_def)
  from key_selection_by_config_id[of ?s2 opens_with_key_2 False "ech_with_id 0x11" "[]" False] d2
  obtain r2 where r2: "ech_early_decrypt_keys opens_with_key_2 False False ?s2
        (ech_with_id 0x11) [] = Inr r2"
      "er_tried r2 = [0]" "er_clear r2 = Some [0x2a]" "er_return r2 = None" "\<not> er_alert r2"
      "er_grease r2 = ECH_NOT_GREASE" "er_done r2" "er_success r2"
    by (auto simp: Let_def b2 e2 i2 opened_def)
  have x1: "first_with_id ?s1 (ech_config_id (ech_with_id 0x22)) = 1"
    by (simp add: first_with_id_def key_config_id_def keys_eval)
  have x2: "early_hpke_decrypt_encch opens_with_key_2 False (key_with_id 0x22 2) (ech_with_id 0x22) []
      = Inr [0x2a]"
    by (simp add: keys_eval)
  show ?thesis using r1 r2 x1 x2 by (cases r1, cases r2) simp
qed

text \<open>
  A key with the received \<^verbatim>\<open>config_id\<close> that fails to open the extension is not followed
  by trial decryption, since the trial loop runs only when no \<^verbatim>\<open>config_id\<close> matched: with
  trial decryption enabled and two stored keys, of which the first has the received
  \<^verbatim>\<open>config_id\<close> and fails while the second would open the extension, only the first key is
  tried and the session is marked grease.
\<close>

lemma matched_key_is_tried_alone:
  "ech_early_decrypt_keys opens_with_key_2 False True
       [key_with_id 0x11 3, key_with_id 0x22 2] (ech_with_id 0x11) [] =
     Inr \<lparr>er_return = Some 1, er_alert = False, er_grease = ECH_IS_GREASE, er_done = True,
          er_success = False, er_clear = None, er_tried = [0]\<rparr>
   \<and> \<not> every_key_tried [key_with_id 0x11 3, key_with_id 0x22 2] [0]
   \<and> early_hpke_decrypt_encch opens_with_key_2 False (key_with_id 0x22 2) (ech_with_id 0x11) []
       = Inr [0x2a]"
  by (simp add: keys_eval)

text \<open>
  With trial decryption disabled and the same two stored keys, an extension carrying the
  \<^verbatim>\<open>config_id\<close> of the second key, which that key opens, is not opened: the bound of the
  search is 1, the second key is never compared, no key is tried and the session is marked
  grease.
\<close>

lemma key_beyond_bound_not_examined:
  "loop_bound [key_with_id 0x11 3, key_with_id 0x22 2] = 1
   \<and> first_with_id [key_with_id 0x11 3, key_with_id 0x22 2] (ech_config_id (ech_with_id 0x22)) = 1
   \<and> early_hpke_decrypt_encch opens_with_key_2 False (key_with_id 0x22 2) (ech_with_id 0x22) []
       = Inr [0x2a]
   \<and> ech_early_decrypt_keys opens_with_key_2 False False
       [key_with_id 0x11 3, key_with_id 0x22 2] (ech_with_id 0x22) [] =
     Inr \<lparr>er_return = Some 1, er_alert = False, er_grease = ECH_IS_GREASE, er_done = True,
          er_success = False, er_clear = None, er_tried = []\<rparr>"
  by (simp add: keys_eval first_with_id_def key_config_id_def loop_bound_def)

section \<open>The transcript of the accept confirmation\<close>

text \<open>
  On both paths the transcript buffer is the inner ClientHello followed by the ServerHello
  message, header and body, with the last 8 octets of the random zeroed: the server writes
  the length octets of the header again, the client writes the whole header.
\<close>

lemma byte_of_nat_mod: "(of_nat (n mod 256) :: byte) = of_nat n"
  by (simp add: word_of_nat_eq_iff take_bit_eq_mod)











section \<open>The server rebuilds the AAD of the client\<close>

text \<open>
  Octets written from lengths: the masks and divisions of the code give the octets of the
  length in network order.
\<close>

lemma byte_eq_mod: "a mod 256 = b mod 256 \<Longrightarrow> (of_nat a :: byte) = of_nat b"
  by (simp add: word_of_nat_eq_iff take_bit_eq_mod)

lemma div_mod_256: "(k mod (256 * m)) div 256 = (k div 256) mod (m :: nat)"
  by (simp add: mod_mult2_eq)

lemma div_mod_65536: "(k mod (65536 * m)) div 65536 = (k div 65536) mod (m :: nat)"
  by (simp add: mod_mult2_eq)

lemma u16_hi: "(of_nat (k mod 65536 div 256) :: byte) = of_nat (k div 256)"
  using div_mod_256[of k 256] by (intro byte_eq_mod) simp

lemma u16_trunc: "(of_nat (k mod 65536) :: byte) = of_nat k"
  by (intro byte_eq_mod) (simp add: mod_mod_cancel)

lemma u24_hi: "(of_nat (n mod 16777216 div 65536) :: byte) = of_nat (n div 65536)"
  using div_mod_65536[of n 256] by (intro byte_eq_mod) simp

lemma u24_mid: "(of_nat (n mod 16777216 div 256) :: byte) = of_nat (n div 256)"
  using div_mod_256[of n 65536] by (intro byte_eq_mod) (simp add: mod_mod_cancel)

lemmas byte_trunc = u16_hi u16_trunc u24_hi u24_mid byte_of_nat_mod

text \<open>
  Reading two octets where a length or a type was written, and walking a list of extensions.
\<close>

lemma get_u16_at:
  "v < 65536 \<Longrightarrow> get_u16 (a @ u16_bytes v @ b) (length a) = v"
proof -
  assume v: "v < 65536"
  then have "v div 256 < 256" by simp
  then have "(v div 256) mod 256 = v div 256" by simp
  moreover have "v div 256 * 256 + v mod 256 = v" by simp
  ultimately show ?thesis
    by (simp add: get_u16_def u16_bytes_def nth_append unat_of_nat_byte)
qed

lemma length_ext_wire: "length (ext_wire e) = 4 + length (snd e)"
  by (simp add: ext_wire_def)

lemma exts_wire_Cons: "exts_wire (e # es) = ext_wire e @ exts_wire es"
  by (simp add: exts_wire_def)

lemma exts_wire_Nil: "exts_wire [] = []"
  by (simp add: exts_wire_def)

lemma exts_wire_append: "exts_wire (es @ fs) = exts_wire es @ exts_wire fs"
  by (simp add: exts_wire_def)

lemma ext_header:
  assumes "fst e < 2 ^ 16" "length (snd e) < 2 ^ 16"
  shows "get_u16 (pre @ ext_wire e @ post) (length pre) = fst e"
    and "get_u16 (pre @ ext_wire e @ post) (length pre + 2) = length (snd e)"
proof -
  have "pre @ ext_wire e @ post = pre @ u16_bytes (fst e) @ (u16_bytes (length (snd e)) @ snd e @ post)"
    by (simp add: ext_wire_def)
  then show "get_u16 (pre @ ext_wire e @ post) (length pre) = fst e"
    using get_u16_at[of "fst e" pre] assms by simp
  have "pre @ ext_wire e @ post = (pre @ u16_bytes (fst e)) @ u16_bytes (length (snd e)) @ (snd e @ post)"
    by (simp add: ext_wire_def)
  then show "get_u16 (pre @ ext_wire e @ post) (length pre + 2) = length (snd e)"
    using get_u16_at[of "length (snd e)" "pre @ u16_bytes (fst e)" "snd e @ post"] assms by simp
qed

text \<open>
  The loop of \<^verbatim>\<open>ech_get_offsets\<close> walks a well-formed list of extensions as
  \<open>scan_exts\<close> does, as long as the count it starts from is no more than three short of the
  list.
\<close>

lemma offsets_loop_exts:
  "list_all (\<lambda>e. fst e < 2 ^ 16 \<and> length (snd e) < 2 ^ 16) es \<Longrightarrow>
   int (length (exts_wire es)) - 3 \<le> r \<Longrightarrow>
   offsets_loop (pre @ exts_wire es @ post) (length pre) r eo so =
   offsets_loop (pre @ exts_wire es @ post) (length pre + length (exts_wire es))
     (r - int (length (exts_wire es)))
     (fst (scan_exts es (length pre) eo so)) (snd (scan_exts es (length pre) eo so))"
proof (induction es arbitrary: pre r eo so)
  case Nil
  show ?case by (simp add: exts_wire_Nil)
next
  case (Cons e es)
  let ?ch = "pre @ exts_wire (e # es) @ post"
  have ch: "?ch = pre @ ext_wire e @ (exts_wire es @ post)"
    by (simp add: exts_wire_Cons)
  have ch2: "?ch = (pre @ ext_wire e) @ exts_wire es @ post"
    by (simp add: exts_wire_Cons)
  from Cons.prems(1) have e: "fst e < 2 ^ 16" "length (snd e) < 2 ^ 16"
    and es: "list_all (\<lambda>e. fst e < 2 ^ 16 \<and> length (snd e) < 2 ^ 16) es" by simp_all
  have len: "length (exts_wire (e # es)) = 4 + length (snd e) + length (exts_wire es)"
    by (simp add: exts_wire_Cons length_ext_wire)
  have r: "r > 0" using Cons.prems(2) len by simp
  have inb: "\<not> length pre + 3 \<ge> length ?ch" by (simp add: len)
  have ty: "get_u16 ?ch (length pre) = fst e"
    unfolding ch using ext_header(1)[OF e] .
  have ln: "get_u16 ?ch (length pre + 2) = length (snd e)"
    unfolding ch using ext_header(2)[OF e] .
  have r': "int (length (exts_wire es)) - 3 \<le> r - int (4 + length (snd e))"
    using Cons.prems(2) len by simp
  have step: "offsets_loop ?ch (length pre) r eo so =
      offsets_loop ?ch (length pre + (4 + length (snd e))) (r - int (4 + length (snd e)))
        (if fst e = TLSEXT_TYPE_ech then length pre else eo)
        (if fst e = TLSEXT_TYPE_ech then so
         else if fst e = TLSEXT_TYPE_server_name then length pre else so)"
    by (subst offsets_loop.simps) (simp only: r inb ty ln if_True if_False Let_def)
  have lp: "length (pre @ ext_wire e) = length pre + (4 + length (snd e))"
    by (simp add: length_ext_wire)
  note ih = Cons.IH[OF es r', of "pre @ ext_wire e"
      "if fst e = TLSEXT_TYPE_ech then length pre else eo"
      "if fst e = TLSEXT_TYPE_ech then so
         else if fst e = TLSEXT_TYPE_server_name then length pre else so", folded ch2, unfolded lp]
  show ?case
    unfolding step ih by (simp add: len add.assoc diff_diff_eq)
qed

lemma scan_exts_sni:
  "snd (scan_exts es off eo so) = so \<or>
   (\<exists>es1 d es2. es = es1 @ (TLSEXT_TYPE_server_name, d) # es2 \<and>
      snd (scan_exts es off eo so) = off + length (exts_wire es1))"
proof (induction es arbitrary: off eo so)
  case Nil
  show ?case by simp
next
  case (Cons e es)
  let ?eo = "if fst e = TLSEXT_TYPE_ech then off else eo"
  let ?so = "if fst e = TLSEXT_TYPE_ech then so
        else if fst e = TLSEXT_TYPE_server_name then off else so"
  from Cons.IH[of "off + (4 + length (snd e))" ?eo ?so]
  consider (a) "snd (scan_exts (e # es) off eo so) = ?so"
    | (b) es1 d es2 where "es = es1 @ (TLSEXT_TYPE_server_name, d) # es2"
        "snd (scan_exts (e # es) off eo so) = off + (4 + length (snd e)) + length (exts_wire es1)"
    by auto
  then show ?case
  proof cases
    case a
    show ?thesis
    proof (cases "?so = so")
      case True
      with a show ?thesis by simp
    next
      case False
      then have "fst e = TLSEXT_TYPE_server_name" "?so = off" by (auto split: if_splits)
      then have "e # es = [] @ (TLSEXT_TYPE_server_name, snd e) # es"
        by (cases e) simp
      moreover have "snd (scan_exts (e # es) off eo so) = off + length (exts_wire [])"
        using a \<open>?so = off\<close> by (simp add: exts_wire_Nil)
      ultimately show ?thesis by blast
    qed
  next
    case b
    have "e # es = (e # es1) @ (TLSEXT_TYPE_server_name, d) # es2" using b(1) by simp
    moreover have "snd (scan_exts (e # es) off eo so) = off + length (exts_wire (e # es1))"
      using b(2) by (simp add: exts_wire_Cons length_ext_wire)
    ultimately show ?thesis by blast
  qed
qed

text \<open>
  The value of the ECH extension is decoded to what the client put there, and both sides
  write the AAD of the specification.
\<close>

lemma put_u16_bytes: "v < 2 ^ 16 \<Longrightarrow> put_u16 v = Some (u16_bytes v)"
  by (simp add: put_u16_def u16_bytes_def byte_of_nat_mod)

lemma length_ech_value:
  "length (ech_value kdf aead cid p c) = 9 + length p + length c"
  by (simp add: ech_value_def)

lemma length_ch_body:
  "length (ch_body vr sid suites compr eb) =
     length vr + 1 + length sid + 2 + length suites + length compr + 2 + length eb"
  by (simp add: ch_body_def)

lemma parse_ech_value_wire:
  assumes "kdf < 2 ^ 16" "aead < 2 ^ 16"
    and "0 < length p" "length p \<le> MAX_ECH_ENC_LEN"
    and "0 < length c" "length c \<le> MAX_ECH_PAYLOAD_LEN"
  shows "parse_ech_value (ech_value kdf aead cid p c) =
     Some \<lparr>kdf_id = kdf, aead_id = aead, ech_config_id = cid, enc_len = length p, enc = p,
           payload_len = length c, payload = c\<rparr>"
proof -
  have lp: "length p < 65536" and lc: "length c < 65536"
    using assms by (simp_all add: MAX_ECH_ENC_LEN_def MAX_ECH_PAYLOAD_LEN_def)
  have k: "kdf < 65536" "aead < 65536" using assms by simp_all
  have cb: "\<And>xs. PACKET_copy_bytes (cid # xs) (Suc 0) = Some ([cid], xs)"
    using copy_bytes_append[of "[cid]"] by simp
  have cp: "\<And>xs. PACKET_copy_bytes (p @ xs) (length p) = Some (p, xs)"
    by (rule copy_bytes_append)
  have cc: "PACKET_copy_bytes c (length c) = Some (c, [])"
    using copy_bytes_append[of c "[]"] by simp
  show ?thesis
    unfolding parse_ech_value_def ech_value_def
    using assms(3-6)
    by (simp add: get_net_2_u16[OF k(1)] get_net_2_u16[OF k(2)] get_net_2_u16[OF lp]
        get_net_2_u16[OF lc] cb cp cc PACKET_remaining_def OPENSSL_malloc_fails_def k)
qed

lemma client_aad_bytes:
  "[of_nat ((kdf mod 2 ^ 16) div 256), of_nat ((kdf mod 2 ^ 16) mod 256),
    of_nat ((aead mod 2 ^ 16) div 256), of_nat ((aead mod 2 ^ 16) mod 256),
    cid,
    of_nat ((length p mod 2 ^ 16) div 256), of_nat ((length p mod 2 ^ 16) mod 256)]
   @ p
   @ [of_nat ((n mod 2 ^ 24) div (256 * 256)), of_nat ((n mod 2 ^ 24) div 256),
      of_nat (n mod 256) :: byte]
   @ rest
   = u16_bytes kdf @ u16_bytes aead @ [cid] @ u16_bytes (length p) @ p @ u24_bytes n @ rest"
  by (simp add: byte_trunc u16_bytes_def u24_bytes_def)

lemma server_aad_bytes:
  "[of_nat ((kdf mod 2 ^ 16) div 256), of_nat ((kdf mod 2 ^ 16) mod 256),
    of_nat ((aead mod 2 ^ 16) div 256), of_nat ((aead mod 2 ^ 16) mod 256),
    cid,
    of_nat ((length p mod 2 ^ 16) div 256), of_nat ((length p mod 2 ^ 16) mod 256)]
   @ p
   @ [of_nat ((n mod 2 ^ 24) div (256 * 256)), of_nat ((n mod 2 ^ 16) div 256),
      of_nat ((n mod 2 ^ 16) mod 256) :: byte]
   @ rest
   = u16_bytes kdf @ u16_bytes aead @ [cid] @ u16_bytes (length p) @ p @ u24_bytes n @ rest"
  by (simp add: byte_trunc u16_bytes_def u24_bytes_def)

lemma ech_srv_get_aad_spec:
  "10 + length p + length de \<le> aad_len \<Longrightarrow>
   ech_srv_get_aad kdf aead p cid de aad_len = Inr (spec_aad kdf aead cid p de)"
  unfolding ech_srv_get_aad_def Let_def spec_aad_def server_aad_bytes
  by (simp add: u16_bytes_def u24_bytes_def)

text \<open>
  The client: the message it leaves is the ClientHello it was given with the ECH extension as
  last extension and the length of the extensions grown by the length of that extension.
\<close>

lemma update_u16_at:
  "(a @ u16_bytes v @ b)[length a := x, length a + 1 := y] = a @ [x, y] @ b"
  by (simp add: u16_bytes_def list_update_append)

lemma ech_ext_wire:
  "length p < 2 ^ 16 \<Longrightarrow> length c < 2 ^ 16 \<Longrightarrow>
   u16_bytes TLSEXT_TYPE_ech @ u16_bytes (2 + 2 + 1 + (2 + length p) + (2 + length c))
     @ [of_nat (kdf div 256), of_nat (kdf mod 256), of_nat (aead div 256), of_nat (aead mod 256), cid]
     @ u16_bytes (length p) @ p @ u16_bytes (length c) @ c
   = ext_wire (TLSEXT_TYPE_ech, ech_value kdf aead cid p c)"
  by (simp add: ext_wire_def ech_value_def u16_bytes_def byte_of_nat_mod)

lemma client_assembles:
  fixes kem kdfw aeadw :: "16 word"
  assumes hdr: "length hdr = 4" and vr: "length vr = 34"
    and suites: "length suites < 2 ^ 16" and compr: "length compr = 2"
    and fits: "length (exts_wire es) + 13 + length p + length c < 2 ^ 16"
    and tc: "0 < pub_len tc" and info: "ech_make_enc_info buf tc HPKE_MAXSIZE = Inr info"
    and p: "length p \<le> MAX_ECH_ENC_LEN"
    and c: "hpke_enc (kem, kdfw, aeadw) (pub tc) clear
              (spec_aad (unat kdfw) (unat aeadw) (config_id tc) p
                 (ch_body vr sid suites compr (exts_wire es))) info p = Some c"
  shows "ech_aad_and_encrypt hpke_enc (length sid) (kem, kdfw, aeadw) buf tc (Some p) clear
           (hdr @ ch_body vr sid suites compr (exts_wire es))
     = Inr (spec_aad (unat kdfw) (unat aeadw) (config_id tc) p
              (ch_body vr sid suites compr (exts_wire es)),
            hdr @ ch_body vr sid suites compr
              (exts_wire (es @ [(TLSEXT_TYPE_ech,
                   ech_value (unat kdfw) (unat aeadw) (config_id tc) p c)])))"
proof -
  let ?kdf = "unat kdfw" and ?aead = "unat aeadw" and ?cid = "config_id tc"
  let ?E = "exts_wire es"
  let ?body = "ch_body vr sid suites compr ?E"
  let ?X = "ext_wire (TLSEXT_TYPE_ech, ech_value ?kdf ?aead ?cid p c)"
  let ?sl = "of_nat (length sid) :: byte"
  let ?pre1 = "hdr @ vr @ [?sl] @ sid"
  let ?pre2 = "?pre1 @ u16_bytes (length suites) @ suites @ compr"
  let ?newlen = "13 + length p + length c"
  have lp: "length p < 2 ^ 16" and lc: "length c < 2 ^ 16" and lE: "length ?E < 2 ^ 16"
    and lsub: "2 + 2 + 1 + (2 + length p) + (2 + length c) < (2 :: nat) ^ 16"
    and lnew: "length ?E + ?newlen < 2 ^ 16"
    using fits by simp_all
  have pmax: "\<not> length p > HPKE_MAXSIZE"
    using p by (simp add: MAX_ECH_ENC_LEN_def HPKE_MAXSIZE_def)
  have tc0: "\<not> pub_len tc \<le> 0" using tc by simp
  have ty: "TLSEXT_TYPE_ech < 2 ^ 16" by (simp add: TLSEXT_TYPE_ech_def)
  have dr: "drop 4 (hdr @ ?body) = ?body" using hdr by simp
  have wr: "length (hdr @ ?body) - 4 = length ?body" using hdr by simp
  have w4: "\<not> length (hdr @ ?body) < 4" using hdr by simp
  have aad: "[of_nat ((?kdf mod 2 ^ 16) div 256), of_nat ((?kdf mod 2 ^ 16) mod 256),
              of_nat ((?aead mod 2 ^ 16) div 256), of_nat ((?aead mod 2 ^ 16) mod 256),
              ?cid,
              of_nat ((length p mod 2 ^ 16) div 256), of_nat ((length p mod 2 ^ 16) mod 256)]
             @ p
             @ [of_nat ((length ?body mod 2 ^ 24) div (256 * 256)),
                of_nat ((length ?body mod 2 ^ 24) div 256),
                of_nat (length ?body mod 256)]
             @ ?body = spec_aad ?kdf ?aead ?cid p ?body"
    unfolding client_aad_bytes spec_aad_def ..
  have d1: "(hdr @ ?body) @ u16_bytes TLSEXT_TYPE_ech
        @ u16_bytes (2 + 2 + 1 + (2 + length p) + (2 + length c))
        @ [of_nat (?kdf div 256), of_nat (?kdf mod 256), of_nat (?aead div 256),
           of_nat (?aead mod 256), ?cid]
        @ u16_bytes (length p) @ p @ u16_bytes (length c) @ c
      = ?pre2 @ u16_bytes (length ?E) @ (?E @ ?X)" (is "?data1 = _")
    using ech_ext_wire[OF lp lc, of ?kdf ?aead ?cid]
    by (simp add: ch_body_def)
  have d1a: "?data1 = ?pre1 @ u16_bytes (length suites) @ (suites @ compr @ u16_bytes (length ?E) @ ?E @ ?X)"
    unfolding d1 by simp
  have l1: "length ?pre1 = 6 + 32 + 1 + length sid" using hdr vr by simp
  have l2: "length ?pre2 = 6 + 32 + 1 + length sid + length suites + 2 + 2"
    using hdr vr compr by simp
  have g1: "get_u16 ?data1 (6 + 32 + 1 + length sid) = length suites"
    unfolding d1a l1[symmetric] by (rule get_u16_at) (use suites in simp)
  have g2: "get_u16 ?data1 (6 + 32 + 1 + length sid + length suites + 2 + 2) = length ?E"
    unfolding d1 l2[symmetric] by (rule get_u16_at) (use lE in simp)
  have b1: "\<not> 6 + 32 + 1 + length sid + 1 \<ge> length ?data1"
    unfolding d1a using l1 by simp
  have b2: "\<not> 6 + 32 + 1 + length sid + length suites + 2 + 2 + 1 \<ge> length ?data1"
    unfolding d1 using l2 by simp
  have nl: "6 + 2 + 2 + 3 + length p + length c = ?newlen" by simp
  have Xl: "length ?X = ?newlen" by (simp add: length_ext_wire length_ech_value)
  have upd: "?data1[6 + 32 + 1 + length sid + length suites + 2 + 2 :=
                      of_nat (((length ?E + ?newlen) mod 2 ^ 16) div 256),
                    6 + 32 + 1 + length sid + length suites + 2 + 2 + 1 :=
                      of_nat (((length ?E + ?newlen) mod 2 ^ 16) mod 256)]
      = hdr @ ch_body vr sid suites compr
              (exts_wire (es @ [(TLSEXT_TYPE_ech, ech_value ?kdf ?aead ?cid p c)]))"
    unfolding d1 l2[symmetric] update_u16_at
    by (simp add: ch_body_def exts_wire_append exts_wire_Cons exts_wire_Nil Xl u16_bytes_def
        byte_trunc)
  show ?thesis
    unfolding ech_aad_and_encrypt_def Let_def fst_conv snd_conv
    by (simp only: option.case wr dr aad w4 pmax info sum.case c prod.case if_False tc0
        put_u16_bytes[OF ty] put_u16_bytes[OF lp] put_u16_bytes[OF lc] put_u16_bytes[OF lsub]
        g1 g2 b1 b2 nl upd)
qed

text \<open>
  The server, step by step: the two functions unfolded once for the path that goes on to the
  key selection.
\<close>

lemma ech_get_offsets_found:
  assumes "\<not> 2 + 32 \<ge> length ch"
    and "unat (ch ! (2 + 32)) = sl"
    and "\<not> 2 + 32 + (1 + sl) + 1 \<ge> length ch"
    and "get_u16 ch (2 + 32 + (1 + sl)) = su"
    and "2 + 32 + (1 + sl) + su + 2 + 2 = S"
    and "S < length ch"
    and "\<not> S + 1 \<ge> length ch"
    and "get_u16 ch S = L"
    and "\<not> S + 2 > length ch - S"
    and "offsets_loop ch (S + 2) (int L - 2) 0 0 = Inr (eo, so)"
  shows "ech_get_offsets ch = Inr (1, 2 + 32, S, eo, so)"
  unfolding ech_get_offsets_def Let_def
  using assms by simp

lemma ech_early_decrypt_aad_goes_on:
  assumes "ech_get_offsets ch = Inr (1, ss, S, eo, so)"
    and "eo \<noteq> 0"
    and "\<not> unat (ch ! ss) > SSL_MAX_SSL_SESSION_ID_LENGTH"
    and "\<not> ss + 1 + unat (ch ! ss) > length ch"
    and "\<not> (so > 0 \<and> so + 3 \<ge> length ch)"
    and "\<not> (so > 0 \<and> so + 4 + get_u16 ch (so + 2) > length ch)"
    and "\<not> (so > 0 \<and> \<not> sni_ok (take (get_u16 ch (so + 2)) (drop (so + 4) ch)))"
    and "\<not> eo + 3 \<ge> length ch"
    and "get_u16 ch (eo + 2) = n"
    and "\<not> eo + 4 + n > length ch"
    and "parse_ech_value (take n (drop (eo + 4) ch)) = Some extval"
    and "take S ch
           @ [of_nat (((length ch - n - S - 6) mod 2 ^ 16) div 256),
              of_nat (((length ch - n - S - 6) mod 2 ^ 16) mod 256)]
           @ take (eo - S - 2) (drop (S + 2) ch)
           @ take (length ch - (eo + n)) (drop (S + 2 + (eo - S - 2) + n) ch) = db"
    and "\<not> length db > HPKE_MAXSIZE"
    and "ech_srv_get_aad (kdf_id extval) (aead_id extval) (enc extval) (ech_config_id extval)
           (take (length ch - n - 4) db) HPKE_MAXSIZE = Inr aad"
  shows "ech_early_decrypt_aad sni_ok ch = Inr (Goes_on (extval, aad))"
  unfolding ech_early_decrypt_aad_def Let_def
  using assms by simp

lemma scan_exts_snoc:
  "fst (scan_exts (es @ [(TLSEXT_TYPE_ech, v)]) off eo so) = off + length (exts_wire es) \<and>
   snd (scan_exts (es @ [(TLSEXT_TYPE_ech, v)]) off eo so) = snd (scan_exts es off eo so)"
proof (induction es arbitrary: off eo so)
  case Nil
  show ?case by (simp add: exts_wire_Nil)
next
  case (Cons e es)
  show ?case
    using Cons.IH[of "off + (4 + length (snd e))"]
    by (simp add: exts_wire_Cons length_ext_wire add.assoc)
qed

text \<open>
  The offsets found in a ClientHello whose last extension is the ECH extension.
\<close>

lemma ch_body_split:
  "ch_body vr sid suites compr (exts_wire (es @ [x])) =
     (vr @ [of_nat (length sid)] @ sid @ u16_bytes (length suites) @ suites @ compr)
     @ u16_bytes (length (exts_wire es) + (4 + length (snd x)))
     @ exts_wire es @ ext_wire x"
  by (simp add: ch_body_def exts_wire_append exts_wire_Cons exts_wire_Nil length_ext_wire)

lemma drop_take_mid: "length a = n \<Longrightarrow> take (length b) (drop n (a @ b @ c)) = b"
  by simp

lemma server_offsets:
  assumes vr: "length vr = 34" and sid: "length sid \<le> 32"
    and suites: "length suites < 2 ^ 16" and compr: "length compr = 2"
    and es: "list_all (\<lambda>e. fst e < 2 ^ 16 \<and> length (snd e) < 2 ^ 16) es"
    and fits: "length (exts_wire es) + (4 + length v) < 2 ^ 16"
    and guard: "39 + length sid + length suites \<le> length (exts_wire es) + (4 + length v)"
  shows "ech_get_offsets (ch_body vr sid suites compr (exts_wire (es @ [(TLSEXT_TYPE_ech, v)]))) =
     Inr (1, 2 + 32, 39 + length sid + length suites,
          39 + length sid + length suites + 2 + length (exts_wire es),
          snd (scan_exts es (39 + length sid + length suites + 2) 0 0))"
proof -
  let ?x = "(TLSEXT_TYPE_ech, v)"
  let ?sl = "of_nat (length sid) :: byte"
  let ?pre = "vr @ [?sl] @ sid @ u16_bytes (length suites) @ suites @ compr"
  let ?E = "exts_wire es"
  let ?L = "length ?E + (4 + length v)"
  let ?S = "39 + length sid + length suites"
  let ?ch = "ch_body vr sid suites compr (exts_wire (es @ [?x]))"
  have chE: "?ch = ?pre @ u16_bytes ?L @ ?E @ ext_wire ?x"
    using ch_body_split[of vr sid suites compr es ?x] by simp
  have lpre: "length ?pre = ?S" using vr compr by simp
  have lch: "length ?ch = ?S + 2 + ?L"
    unfolding chE using lpre by (simp add: length_ext_wire)
  have ch1: "?ch = vr @ ?sl # (sid @ u16_bytes (length suites) @ suites @ compr
       @ u16_bytes ?L @ ?E @ ext_wire ?x)"
    unfolding chE by simp
  have ch2: "?ch = (vr @ [?sl] @ sid) @ u16_bytes (length suites) @ (suites @ compr
       @ u16_bytes ?L @ ?E @ ext_wire ?x)"
    unfolding chE by simp
  have ch3: "?ch = (?pre @ u16_bytes ?L) @ exts_wire (es @ [?x]) @ []"
    unfolding chE by (simp add: exts_wire_append exts_wire_Cons exts_wire_Nil)
  have p1: "\<not> 2 + 32 \<ge> length ?ch" unfolding lch by simp
  have "?ch ! 34 = ?sl"
    unfolding ch1 using nth_append_length[of vr ?sl] vr by simp
  then have p2: "unat (?ch ! (2 + 32)) = length sid"
    using sid by (simp add: unat_of_nat_byte)
  have p3: "\<not> 2 + 32 + (1 + length sid) + 1 \<ge> length ?ch" unfolding lch by simp
  have "get_u16 ?ch (length (vr @ [?sl] @ sid)) = length suites"
    unfolding ch2 by (rule get_u16_at) (use suites in simp)
  then have p4: "get_u16 ?ch (2 + 32 + (1 + length sid)) = length suites"
    using vr by (simp add: add.commute)
  have p5: "2 + 32 + (1 + length sid) + length suites + 2 + 2 = ?S" by simp
  have p6: "?S < length ?ch" unfolding lch by simp
  have p7: "\<not> ?S + 1 \<ge> length ?ch" unfolding lch by simp
  have "get_u16 ?ch (length ?pre) = ?L"
    unfolding chE by (rule get_u16_at) (use fits in simp)
  then have p8: "get_u16 ?ch ?S = ?L" unfolding lpre .
  have p9: "\<not> ?S + 2 > length ?ch - ?S" unfolding lch using guard by simp
  have es': "list_all (\<lambda>e. fst e < 2 ^ 16 \<and> length (snd e) < 2 ^ 16) (es @ [?x])"
    using es fits by (simp add: TLSEXT_TYPE_ech_def)
  have lE': "length (exts_wire (es @ [?x])) = ?L"
    by (simp add: exts_wire_append exts_wire_Cons exts_wire_Nil length_ext_wire)
  have lp2: "length (?pre @ u16_bytes ?L) = ?S + 2" using lpre by simp
  have "offsets_loop ?ch (?S + 2) (int ?L - 2) 0 0 =
        offsets_loop ?ch (?S + 2 + ?L) (int ?L - 2 - int ?L)
          (fst (scan_exts (es @ [?x]) (?S + 2) 0 0)) (snd (scan_exts (es @ [?x]) (?S + 2) 0 0))"
    using offsets_loop_exts[OF es', of "int ?L - 2" "?pre @ u16_bytes ?L" "[]" 0 0]
    unfolding lE' ch3[symmetric] lp2 by simp
  also have "\<dots> = Inr (fst (scan_exts (es @ [?x]) (?S + 2) 0 0),
                        snd (scan_exts (es @ [?x]) (?S + 2) 0 0))"
    by (subst offsets_loop.simps) simp
  also have "\<dots> = Inr (?S + 2 + length ?E, snd (scan_exts es (?S + 2) 0 0))"
    using scan_exts_snoc[of es v "?S + 2" 0 0] by simp
  finally have p10: "offsets_loop ?ch (?S + 2) (int ?L - 2) 0 0 =
      Inr (?S + 2 + length ?E, snd (scan_exts es (?S + 2) 0 0))" .
  show ?thesis
    by (rule ech_get_offsets_found[OF p1 p2 p3 p4 p5 p6 p7 p8 p9 p10])
qed

text \<open>
  The server cuts the ECH extension out and gets the AAD of the specification for the body
  without it.
\<close>

lemma take_length_append: "take (length a) (a @ b) = a"
  by simp

lemma exts_ok_D:
  "exts_ok sni_ok es \<Longrightarrow> list_all (\<lambda>e. fst e < 2 ^ 16 \<and> length (snd e) < 2 ^ 16) es"
  unfolding exts_ok_def by (induction es) auto

lemma exts_ok_sni:
  "exts_ok sni_ok (es1 @ (TLSEXT_TYPE_server_name, d) # es2) \<Longrightarrow>
     sni_ok d \<and> length d < 2 ^ 16"
  unfolding exts_ok_def by simp

lemma server_aad:
  assumes vr: "length vr = 34" and sid: "length sid \<le> 32"
    and suites: "length suites < 2 ^ 16" and compr: "length compr = 2"
    and es: "exts_ok sni_ok es"
    and kdf: "kdf < 2 ^ 16" and aead: "aead < 2 ^ 16"
    and p: "0 < length p" "length p \<le> MAX_ECH_ENC_LEN"
    and c: "0 < length c" "length c \<le> MAX_ECH_PAYLOAD_LEN"
    and fits: "length (exts_wire es) + 13 + length p + length c < 2 ^ 16"
    and guard: "39 + length sid + length suites \<le> length (exts_wire es) + 13 + length p + length c"
    and room: "10 + length p + length (ch_body vr sid suites compr (exts_wire es)) \<le> HPKE_MAXSIZE"
  shows "ech_early_decrypt_aad sni_ok
           (ch_body vr sid suites compr
              (exts_wire (es @ [(TLSEXT_TYPE_ech, ech_value kdf aead cid p c)])))
     = Inr (Goes_on (\<lparr>kdf_id = kdf, aead_id = aead, ech_config_id = cid, enc_len = length p,
                       enc = p, payload_len = length c, payload = c\<rparr>,
                     spec_aad kdf aead cid p (ch_body vr sid suites compr (exts_wire es))))"
proof -
  let ?v = "ech_value kdf aead cid p c"
  let ?x = "(TLSEXT_TYPE_ech, ?v)"
  let ?sl = "of_nat (length sid) :: byte"
  let ?pre = "vr @ [?sl] @ sid @ u16_bytes (length suites) @ suites @ compr"
  let ?E = "exts_wire es"
  let ?L = "length ?E + (4 + length ?v)"
  let ?S = "39 + length sid + length suites"
  let ?eo = "?S + 2 + length ?E"
  let ?so = "snd (scan_exts es (?S + 2) 0 0)"
  let ?ch = "ch_body vr sid suites compr (exts_wire (es @ [?x]))"
  let ?body = "ch_body vr sid suites compr ?E"
  let ?extval = "\<lparr>kdf_id = kdf, aead_id = aead, ech_config_id = cid, enc_len = length p,
                       enc = p, payload_len = length c, payload = c\<rparr>"
  have lv: "length ?v = 9 + length p + length c" by (rule length_ech_value)
  have es2: "list_all (\<lambda>e. fst e < 2 ^ 16 \<and> length (snd e) < 2 ^ 16) es"
    using es by (rule exts_ok_D)
  have fits': "length ?E + (4 + length ?v) < 2 ^ 16" using fits lv by simp
  have guard': "?S \<le> length ?E + (4 + length ?v)" using guard lv by simp
  have off: "ech_get_offsets ?ch = Inr (1, 2 + 32, ?S, ?eo, ?so)"
    using server_offsets[OF vr sid suites compr es2 fits' guard'] .
  have chE: "?ch = ?pre @ u16_bytes ?L @ ?E @ ext_wire ?x"
    using ch_body_split[of vr sid suites compr es ?x] by simp
  have lpre: "length ?pre = ?S" using vr compr by simp
  have lch: "length ?ch = ?S + 2 + ?L"
    unfolding chE using lpre by (simp add: length_ext_wire)
  have ch1: "?ch = vr @ ?sl # (sid @ u16_bytes (length suites) @ suites @ compr
       @ u16_bytes ?L @ ?E @ ext_wire ?x)"
    unfolding chE by simp
  have "?ch ! 34 = ?sl"
    unfolding ch1 using nth_append_length[of vr ?sl] vr by simp
  then have sidv: "unat (?ch ! (2 + 32)) = length sid"
    using sid by (simp add: unat_of_nat_byte)
  have q2: "?eo \<noteq> 0" by simp
  have q3: "\<not> unat (?ch ! (2 + 32)) > SSL_MAX_SSL_SESSION_ID_LENGTH"
    unfolding sidv using sid by (simp add: SSL_MAX_SSL_SESSION_ID_LENGTH_def)
  have q4: "\<not> 2 + 32 + 1 + unat (?ch ! (2 + 32)) > length ?ch"
    unfolding sidv lch by simp
  have sni: "?so = 0 \<or> (?so + 3 < length ?ch \<and> ?so + 4 + get_u16 ?ch (?so + 2) \<le> length ?ch
      \<and> sni_ok (take (get_u16 ?ch (?so + 2)) (drop (?so + 4) ?ch)))"
  proof -
    have "?so = 0 \<or> (\<exists>es1 d es3. es = es1 @ (TLSEXT_TYPE_server_name, d) # es3 \<and>
        ?so = ?S + 2 + length (exts_wire es1))"
      by (rule scan_exts_sni)
    then show ?thesis
    proof (elim disjE exE conjE)
      assume "?so = 0"
      then show ?thesis by simp
    next
      fix es1 d es3
      assume 2: "es = es1 @ (TLSEXT_TYPE_server_name, d) # es3"
        "?so = ?S + 2 + length (exts_wire es1)"
      let ?A = "?pre @ u16_bytes ?L @ exts_wire es1"
      let ?e = "(TLSEXT_TYPE_server_name, d)"
      let ?rest = "exts_wire es3 @ ext_wire ?x"
      have okd: "sni_ok d" "length d < 2 ^ 16"
        using es exts_ok_sni[of sni_ok es1 d es3] unfolding 2(1) by simp_all
      have lA: "length ?A = ?so" unfolding 2(2) using lpre by simp
      have Eeq: "?E = exts_wire es1 @ ext_wire ?e @ exts_wire es3"
        unfolding 2(1) by (simp add: exts_wire_append exts_wire_Cons)
      have chs: "?ch = ?A @ ext_wire ?e @ ?rest"
        by (subst chE) (simp add: Eeq)
      have hd2: "get_u16 ?ch (?so + 2) = length d"
        unfolding chs lA[symmetric]
        using ext_header(2)[of ?e ?A ?rest] okd(2) by (simp add: TLSEXT_TYPE_server_name_def)
      have chs2: "?ch = (?A @ u16_bytes TLSEXT_TYPE_server_name @ u16_bytes (length d)) @ d @ ?rest"
        unfolding chs by (simp add: ext_wire_def)
      have lA2: "length (?A @ u16_bytes TLSEXT_TYPE_server_name @ u16_bytes (length d)) = ?so + 4"
        using lA by simp
      have tk: "take (length d) (drop (?so + 4) ?ch) = d"
        using drop_take_mid[OF lA2, of d ?rest] chs2 by simp
      have ln: "length ?ch = ?so + 4 + length d + length ?rest"
        using arg_cong[OF chs2, of length] lA2 by simp
      show ?thesis
        unfolding hd2 tk using okd(1) ln by simp
    qed
  qed
  have q5: "\<not> (?so > 0 \<and> ?so + 3 \<ge> length ?ch)" using sni by auto
  have q6: "\<not> (?so > 0 \<and> ?so + 4 + get_u16 ?ch (?so + 2) > length ?ch)" using sni by auto
  have q7: "\<not> (?so > 0 \<and> \<not> sni_ok (take (get_u16 ?ch (?so + 2)) (drop (?so + 4) ?ch)))"
    using sni by auto
  let ?B = "?pre @ u16_bytes ?L @ ?E"
  have lB: "length ?B = ?eo" using lpre by simp
  have chx: "?ch = ?B @ ext_wire ?x @ []" unfolding chE by simp
  have q8: "\<not> ?eo + 3 \<ge> length ?ch" unfolding lch by simp
  have q9: "get_u16 ?ch (?eo + 2) = length ?v"
    unfolding lB[symmetric]
    using ext_header(2)[of ?x ?B "[]"] fits' chx by (simp add: TLSEXT_TYPE_ech_def)
  have q10: "\<not> ?eo + 4 + length ?v > length ?ch" unfolding lch by simp
  have chx2: "?ch = (?B @ u16_bytes TLSEXT_TYPE_ech @ u16_bytes (length ?v)) @ ?v @ []"
    unfolding chE by (simp add: ext_wire_def)
  have lB2: "length (?B @ u16_bytes TLSEXT_TYPE_ech @ u16_bytes (length ?v)) = ?eo + 4"
    using lB by simp
  have tv: "take (length ?v) (drop (?eo + 4) ?ch) = ?v"
    using drop_take_mid[OF lB2, of ?v "[]"] chx2 by simp
  have q11: "parse_ech_value (take (length ?v) (drop (?eo + 4) ?ch)) = Some ?extval"
    unfolding tv by (rule parse_ech_value_wire[OF kdf aead p c])
  let ?tail = "take (length ?ch - (?eo + length ?v))
                 (drop (?S + 2 + (?eo - ?S - 2) + length ?v) ?ch)"
  let ?db = "?pre @ u16_bytes (length ?E) @ ?E @ ?tail"
  have "take (length ?pre) ?ch = ?pre" unfolding chE by (rule take_length_append)
  then have t1: "take ?S ?ch = ?pre" unfolding lpre .
  have n1: "length ?ch - length ?v - ?S - 6 = length ?E" unfolding lch by simp
  have n2: "?eo - ?S - 2 = length ?E" by simp
  have chm: "?ch = (?pre @ u16_bytes ?L) @ ?E @ ext_wire ?x" unfolding chE by simp
  have lm: "length (?pre @ u16_bytes ?L) = ?S + 2" using lpre by simp
  have t2: "take (length ?E) (drop (?S + 2) ?ch) = ?E"
    using drop_take_mid[OF lm, of ?E "ext_wire ?x"] chm by simp
  have q12: "take ?S ?ch
           @ [of_nat (((length ?ch - length ?v - ?S - 6) mod 2 ^ 16) div 256),
              of_nat (((length ?ch - length ?v - ?S - 6) mod 2 ^ 16) mod 256)]
           @ take (?eo - ?S - 2) (drop (?S + 2) ?ch)
           @ ?tail = ?db"
    unfolding t1 n1 n2 t2 by (simp add: u16_bytes_def byte_trunc)
  have ltail: "length ?tail \<le> 4" unfolding lch by simp
  have lbody: "length ?body = ?S + 2 + length ?E"
    using vr compr by (simp add: length_ch_body)
  have q13: "\<not> length ?db > HPKE_MAXSIZE"
    using ltail room lpre lbody p(1) by simp
  have n3: "length ?ch - length ?v - 4 = ?S + 2 + length ?E" unfolding lch by simp
  have dbb: "?db = ?body @ ?tail" by (simp add: ch_body_def)
  have t3: "take (length ?ch - length ?v - 4) ?db = ?body"
    unfolding n3 dbb using lbody by simp
  have q14: "ech_srv_get_aad (kdf_id ?extval) (aead_id ?extval) (enc ?extval)
       (ech_config_id ?extval) (take (length ?ch - length ?v - 4) ?db) HPKE_MAXSIZE
     = Inr (spec_aad kdf aead cid p ?body)"
    unfolding t3 using ech_srv_get_aad_spec[OF room] by simp
  show ?thesis
    by (rule ech_early_decrypt_aad_goes_on[where sni_ok = sni_ok, OF off q2 q3 q4 q5 q6 q7 q8 q9 q10 q11 q12 q13 q14])
qed

text \<open>
  Claim C3. Let the client be given a well-formed outer ClientHello (handshake header,
  version and random, a session id of at most 32 octets whose length is that of the session,
  cipher suites, two octets of compression methods, extensions whose server name values the
  parser accepts), a public key \<open>p\<close> of 1 to 1024 octets and a ciphertext \<open>c\<close> of 1 to
  16384 octets sealed under the AAD of the specification; let the lengths fit their fields
  and the local buffers of \<^verbatim>\<open>HPKE_MAXSIZE\<close> octets, and let the extensions with the ECH
  extension be no shorter than what stands before them in the body (the check of
  \<^verbatim>\<open>ech_get_offsets\<close>). Then \<^verbatim>\<open>ech_aad_and_encrypt\<close> uses the AAD of the specification and
  appends the ECH extension last, and \<^verbatim>\<open>ech_early_decrypt\<close>, given the body of the message
  the client made, decodes the extension and rebuilds that same AAD: suite, \<^verbatim>\<open>config_id\<close>,
  length of \<^verbatim>\<open>enc\<close>, \<^verbatim>\<open>enc\<close>, length of the body without the ECH extension in three
  octets, and that body.
\<close>

theorem server_aad_is_client_aad:
  fixes kem kdfw aeadw :: "16 word"
  assumes hdr: "length hdr = 4" and vr: "length vr = 34" and sid: "length sid \<le> 32"
    and suites: "length suites < 2 ^ 16" and compr: "length compr = 2"
    and es: "exts_ok sni_ok es"
    and tc: "0 < pub_len tc" and info: "ech_make_enc_info buf tc HPKE_MAXSIZE = Inr info"
    and p: "0 < length p" "length p \<le> MAX_ECH_ENC_LEN"
    and seal: "hpke_enc (kem, kdfw, aeadw) (pub tc) clear
              (spec_aad (unat kdfw) (unat aeadw) (config_id tc) p
                 (ch_body vr sid suites compr (exts_wire es))) info p = Some c"
    and c: "0 < length c" "length c \<le> MAX_ECH_PAYLOAD_LEN"
    and fits: "length (exts_wire es) + 13 + length p + length c < 2 ^ 16"
    and guard: "39 + length sid + length suites \<le> length (exts_wire es) + 13 + length p + length c"
    and room: "10 + length p + length (ch_body vr sid suites compr (exts_wire es)) \<le> HPKE_MAXSIZE"
  shows "ech_aad_and_encrypt hpke_enc (length sid) (kem, kdfw, aeadw) buf tc (Some p) clear
           (hdr @ ch_body vr sid suites compr (exts_wire es))
       = Inr (spec_aad (unat kdfw) (unat aeadw) (config_id tc) p
                (ch_body vr sid suites compr (exts_wire es)),
              hdr @ ch_body vr sid suites compr
                (exts_wire (es @ [(TLSEXT_TYPE_ech,
                     ech_value (unat kdfw) (unat aeadw) (config_id tc) p c)])))
     \<and> ech_early_decrypt_aad sni_ok
           (drop 4 (hdr @ ch_body vr sid suites compr
                (exts_wire (es @ [(TLSEXT_TYPE_ech,
                     ech_value (unat kdfw) (unat aeadw) (config_id tc) p c)]))))
       = Inr (Goes_on (\<lparr>kdf_id = unat kdfw, aead_id = unat aeadw, ech_config_id = config_id tc,
                         enc_len = length p, enc = p, payload_len = length c, payload = c\<rparr>,
                       spec_aad (unat kdfw) (unat aeadw) (config_id tc) p
                         (ch_body vr sid suites compr (exts_wire es))))"
proof -
  have "unat kdfw < 2 ^ LENGTH(16)" "unat aeadw < 2 ^ LENGTH(16)"
    by (rule unsigned_less)+
  then have k: "unat kdfw < 2 ^ 16" "unat aeadw < 2 ^ 16" by simp_all
  have dr: "\<And>b. drop 4 (hdr @ b) = b" using hdr by simp
  show ?thesis
    unfolding dr
    using client_assembles[where hpke_enc = hpke_enc and kem = kem and kdfw = kdfw
          and aeadw = aeadw and clear = clear and sid = sid and info = info and p = p and c = c,
          OF hdr vr suites compr fits tc info p(2) seal]
      server_aad[OF vr sid suites compr es k p c fits guard room, of "config_id tc"]
    by simp
qed

text \<open>
  Evaluation of the sample ClientHello.
\<close>

lemmas aad_eval = sample_hdr_def sample_vr_def sample_sid_def sample_suites_def sample_exts_def
  sample_sni_ok_def sample_seal_def sample_tc_def ECHConfig_zero_def exts_ok_def
  exts_wire_def ext_wire_def ch_body_def u16_bytes_def ech_make_enc_info_def
  ECH_CONTEXT_STRING_def HPKE_MAXSIZE_def MAX_ECH_ENC_LEN_def MAX_ECH_PAYLOAD_LEN_def
  TLSEXT_TYPE_server_name_def

text \<open>
  Claim C3 on the sample ClientHello: the client's AAD and the AAD the server rebuilds from
  the client's message are the same octets.
\<close>

theorem server_aad_is_client_aad_witness:
  "ech_aad_and_encrypt sample_seal (length sample_sid) (0x20, 0x01, 0x01) [] sample_tc
       (Some [0xaa, 0xbb]) [] (sample_hdr @ ch_body sample_vr sample_sid sample_suites [1, 0]
           (exts_wire sample_exts))
     = Inr (spec_aad 1 1 0x77 [0xaa, 0xbb]
              (ch_body sample_vr sample_sid sample_suites [1, 0] (exts_wire sample_exts)),
            sample_hdr @ ch_body sample_vr sample_sid sample_suites [1, 0]
              (exts_wire (sample_exts @ [(TLSEXT_TYPE_ech,
                   ech_value 1 1 0x77 [0xaa, 0xbb] (replicate 80 0xcc))])))
   \<and> ech_early_decrypt_aad sample_sni_ok
         (drop 4 (sample_hdr @ ch_body sample_vr sample_sid sample_suites [1, 0]
              (exts_wire (sample_exts @ [(TLSEXT_TYPE_ech,
                   ech_value 1 1 0x77 [0xaa, 0xbb] (replicate 80 0xcc))]))))
     = Inr (Goes_on (\<lparr>kdf_id = 1, aead_id = 1, ech_config_id = 0x77, enc_len = 2,
                       enc = [0xaa, 0xbb], payload_len = 80, payload = replicate 80 0xcc\<rparr>,
                     spec_aad 1 1 0x77 [0xaa, 0xbb]
                       (ch_body sample_vr sample_sid sample_suites [1, 0]
                          (exts_wire sample_exts))))"
  using server_aad_is_client_aad[where hdr = sample_hdr and vr = sample_vr and sid = sample_sid
      and suites = sample_suites and compr = "[1, 0]" and sni_ok = sample_sni_ok
      and es = sample_exts and tc = sample_tc and buf = "[]"
      and info = "ECH_CONTEXT_STRING @ [0]" and p = "[0xaa, 0xbb]" and hpke_enc = sample_seal
      and kem = "0x20" and kdfw = "0x01" and aeadw = "0x01" and clear = "[]"
      and c = "replicate 80 0xcc"]
  by (simp add: aad_eval)

section \<open>Properties: the encoded inner ClientHello\<close>

text \<open>
  What the encoder writes, for values that fit their fields: an extension in full is its wire
  form, and the \<^verbatim>\<open>outer_extensions\<close> record is the wire form of the
  \<^verbatim>\<open>outer_extensions\<close> extension that names all the types of \<^verbatim>\<open>outer_only\<close>.
\<close>

lemma put_u8_byte: "v < 2 ^ 8 \<Longrightarrow> put_u8 v = Some [of_nat v]"
  by (simp add: put_u8_def)

lemma put_outer_types_wire:
  "list_all (\<lambda>t. t < 2 ^ 16) ts \<Longrightarrow> put_outer_types ts = Some (concat (map u16_bytes ts))"
  by (induction ts) (simp_all add: put_u16_bytes)

lemma outer_extensions_record_wire:
  assumes "list_all (\<lambda>t. t < 2 ^ 16) oo" "2 * length oo < 2 ^ 8"
  shows "outer_extensions_record oo = Some (ext_wire (outer_extensions_ext oo))"
proof -
  have a: "TLSEXT_TYPE_outer_extensions < 2 ^ 16"
    by (simp add: TLSEXT_TYPE_outer_extensions_def)
  have b: "Suc (2 * length oo) < 2 ^ 16" using assms(2) by simp
  have c: "length (concat (map u16_bytes oo)) = 2 * length oo"
    by (induction oo) simp_all
  show ?thesis
    unfolding outer_extensions_record_def
    by (simp add: put_u16_bytes[OF a] put_u16_bytes[OF b] put_u8_byte[OF assms(2)]
        put_outer_types_wire[OF assms(1)] ext_wire_def outer_extensions_ext_def c)
qed

lemma put_raw_extension_wire:
  assumes "ext_type r < 2 ^ 16" "length (case ext_data r of None \<Rightarrow> [] | Some d \<Rightarrow> d) < 2 ^ 16"
  shows "put_raw_extension r =
     Some (ext_wire (ext_type r, case ext_data r of None \<Rightarrow> [] | Some d \<Rightarrow> d))"
proof (cases "ext_data r")
  case None
  have z: "(0 :: nat) < 2 ^ 16" by simp
  show ?thesis
    unfolding put_raw_extension_def None
    by (simp add: put_u16_bytes[OF assms(1)] put_u16_bytes[OF z] ext_wire_def)
next
  case (Some d)
  then have d: "length d < 2 ^ 16" using assms(2) by simp
  show ?thesis
    unfolding put_raw_extension_def Some
    by (simp add: put_u16_bytes[OF assms(1)] put_u16_bytes[OF d] ext_wire_def)
qed

lemma present_exts_Cons:
  "present_exts (r # rs) =
     (if present r then (ext_type r, case ext_data r of None \<Rightarrow> [] | Some d \<Rightarrow> d) # present_exts rs
      else present_exts rs)"
  by (simp add: present_exts_def)

text \<open>
  The loop of \<^verbatim>\<open>ech_encode_inner\<close> writes the extensions as the specification describes
  the compression: one \<^verbatim>\<open>outer_extensions\<close> record at the position of the first extension
  to be compressed, the other extensions to be compressed left out, the remaining extensions
  in their order and with their values.
\<close>

lemma encode_exts_compress:
  assumes oo: "list_all (\<lambda>t. t < 2 ^ 16) oo" "2 * length oo < 2 ^ 8"
  shows "exts_fit (present_exts raws) \<Longrightarrow>
     encode_exts oo raws compression_done =
       Some (exts_wire (compress_exts oo compression_done (present_exts raws)))"
proof (induction raws arbitrary: compression_done)
  case Nil
  show ?case by (simp add: present_exts_def exts_wire_Nil)
next
  case (Cons r rs)
  show ?case
  proof (cases "present r")
    case False
    then show ?thesis using Cons by (simp add: present_exts_Cons)
  next
    case True
    let ?e = "(ext_type r, case ext_data r of None \<Rightarrow> [] | Some d \<Rightarrow> d)"
    from Cons.prems True have fit: "ext_type r < 2 ^ 16" "length (snd ?e) < 2 ^ 16"
      and rest: "exts_fit (present_exts rs)"
      by (simp_all add: present_exts_Cons exts_fit_def)
    have mem: "list_ex (\<lambda>t. ext_type r = t) oo = (ext_type r \<in> set oo)"
      by (auto simp: list_ex_iff)
    note ih = Cons.IH[OF rest]
    show ?thesis
    proof (cases "ext_type r \<in> set oo")
      case c: True
      show ?thesis
        using True c
        by (cases compression_done)
           (simp_all add: mem Let_def ih present_exts_Cons outer_extensions_record_wire[OF oo]
              exts_wire_Cons exts_wire_Nil exts_wire_append)
    next
      case c: False
      have w: "put_raw_extension r = Some (ext_wire ?e)"
        using put_raw_extension_wire[of r] fit by simp
      show ?thesis
        using True c
        by (simp add: mem Let_def ih present_exts_Cons w exts_wire_Cons)
    qed
  qed
qed

text \<open>
  The compression on extensions of which none, or all, are to be compressed, and on a run of
  extensions to be compressed between extensions that are not.
\<close>

lemma compress_exts_none:
  "\<forall>e\<in>set es. fst e \<notin> set oo \<Longrightarrow> compress_exts oo compression_done es = es"
  by (induction es) simp_all

lemma compress_exts_all:
  "\<forall>e\<in>set es. fst e \<in> set oo \<Longrightarrow> compress_exts oo True es = []"
  by (induction es) simp_all

lemma compress_exts_append_none:
  "\<forall>e\<in>set pre. fst e \<notin> set oo \<Longrightarrow>
   compress_exts oo compression_done (pre @ es) = pre @ compress_exts oo compression_done es"
  by (induction pre) simp_all

lemma compress_exts_append_all:
  "\<forall>e\<in>set mid. fst e \<in> set oo \<Longrightarrow>
   compress_exts oo True (mid @ es) = compress_exts oo True es"
  by (induction mid) simp_all

lemma compress_exts_contiguous:
  assumes "\<forall>e\<in>set pre. fst e \<notin> set oo" "\<forall>e\<in>set mid. fst e \<in> set oo" "mid \<noteq> []"
    "\<forall>e\<in>set post. fst e \<notin> set oo"
  shows "compress_exts oo False (pre @ mid @ post) = pre @ [outer_extensions_ext oo] @ post"
proof -
  from assms(3) obtain m ms where mid: "mid = m # ms" by (cases mid) auto
  have "compress_exts oo False (mid @ post) = [outer_extensions_ext oo] @ post"
    using assms(2,4) unfolding mid
    by (simp add: compress_exts_append_all compress_exts_none)
  then show ?thesis
    using compress_exts_append_none[OF assms(1)] by simp
qed

text \<open>
  The encoded inner ClientHello: version, random, an empty session id, the cipher suites, the
  null compression method, and the compressed extensions.
\<close>

lemma ech_encode_inner_wire:
  assumes v: "client_version < 2 ^ 16"
    and cs: "length cs < 2 ^ 16"
    and oo: "list_all (\<lambda>t. t < 2 ^ 16) oo" "2 * length oo < 2 ^ 8"
    and fit: "exts_fit (present_exts raws)"
    and el: "length (exts_wire (compress_exts oo False (present_exts raws))) < 2 ^ 16"
    and tot: "length (ch_body (u16_bytes client_version @ client_random) [] cs [0x01, 0x00]
                (exts_wire (compress_exts oo False (present_exts raws)))) < 2 ^ 24"
  shows "ech_encode_inner client_version client_random (Some cs) oo raws =
     Inr (ch_body (u16_bytes client_version @ client_random) [] cs [0x01, 0x00]
            (exts_wire (compress_exts oo False (present_exts raws))))"
proof -
  have z: "put_u8 0 = Some [0]" and o: "put_u8 (Suc 0) = Some [1]"
    by (simp_all add: put_u8_def)
  show ?thesis
    using tot
    unfolding ech_encode_inner_def
    by (simp add: put_u16_bytes[OF v] put_u16_bytes[OF cs] put_u16_bytes[OF el] z o
        encode_exts_compress[OF oo fit] ch_body_def Let_def)
qed








end
